theory Spec2Isabelle
  imports Complex_Main
begin

section \<open>Python values\<close>

subsection \<open>Exceptions\<close>

text \<open>
  The exceptions the video service raises or lets through.  \<open>ValueError\<close> and
  \<open>RuntimeError\<close> carry the message the source builds.
\<close>

datatype error =
    ValueError string
  | RuntimeError string
  | ZeroDivisionError
  | TypeError
  | AttributeError
  | FileNotFoundError
  | OtherError string

subsection \<open>Floats\<close>

text \<open>
  A finite Python float is an IEEE-754 binary64 number: a real \<open>m * 2 powi e\<close> with
  \<open>\<bar>m\<bar> < 2 ^ 53\<close> and \<open>- 1074 \<le> e \<le> 971\<close>.  Floats are carried as reals and every
  rounding operation of the source rounds its exact result to the nearest such number,
  ties to even.  Infinities and NaN are outside the model: where the source would
  overflow to \<open>inf\<close>, at an exact result of magnitude \<open>2 ^ 1024 - 2 ^ 970\<close> or more,
  \<open>rnd\<close> still returns a finite real, so a statement about the source holds only for
  inputs that keep every result below that magnitude.

  \<open>ulp_exp x\<close> is the exponent of the unit in the last place of \<open>x\<close>: the least
  \<open>e \<ge> - 1074\<close> with \<open>\<bar>x\<bar> < 2 ^ 53 * 2 powi e\<close>, searched upwards to 971.
\<close>

fun ulp_search :: "nat \<Rightarrow> real \<Rightarrow> int \<Rightarrow> int" where
  "ulp_search 0 x e = e"
| "ulp_search (Suc k) x e = (if x < 2 ^ 53 * 2 powi e then e else ulp_search k x (e + 1))"

definition ulp_exp :: "real \<Rightarrow> int" where
  "ulp_exp x = ulp_search 2045 \<bar>x\<bar> (- 1074)"

definition round_half_even :: "real \<Rightarrow> int" where
  "round_half_even x =
     (let f = \<lfloor>x\<rfloor>; r = x - of_int f
      in if r < 1 / 2 then f else if 1 / 2 < r then f + 1 else if even f then f else f + 1)"

definition rnd :: "real \<Rightarrow> real" where
  "rnd x = (let e = ulp_exp x in of_int (round_half_even (x / 2 powi e)) * 2 powi e)"

text \<open>Float arithmetic: \<open>a * b\<close>, \<open>a - b\<close>, and \<open>a / b\<close> for a divisor that is not zero.\<close>

definition fmul :: "real \<Rightarrow> real \<Rightarrow> real" where
  "fmul a b = rnd (a * b)"

definition fsub :: "real \<Rightarrow> real \<Rightarrow> real" where
  "fsub a b = rnd (a - b)"

definition fdiv :: "real \<Rightarrow> real \<Rightarrow> real" where
  "fdiv a b = rnd (a / b)"

text \<open>\<open>a / b\<close> as Python evaluates it: a zero divisor raises.\<close>

definition py_truediv :: "real \<Rightarrow> real \<Rightarrow> error + real" where
  "py_truediv a b = (if b = 0 then Inl ZeroDivisionError else Inr (fdiv a b))"

text \<open>\<open>int(x)\<close> on a float truncates towards zero.\<close>

definition py_int :: "real \<Rightarrow> int" where
  "py_int x = (if 0 \<le> x then \<lfloor>x\<rfloor> else \<lceil>x\<rceil>)"

text \<open>
  \<open>x % y\<close> and \<open>x // y\<close> on floats, for a divisor that is not zero, as CPython
  computes them.  C's \<open>fmod\<close> is exact: it has the sign of \<open>x\<close> and a magnitude below
  that of \<open>y\<close>.  The remainder is \<open>fmod\<close>, moved by the float sum \<open>mod + y\<close> when
  its sign differs from the sign of \<open>y\<close>.  The quotient is the float quotient
  \<open>(x - mod) / y\<close> of the float difference, less 1 in the same case, snapped to the
  nearest whole number.
\<close>

definition c_fmod :: "real \<Rightarrow> real \<Rightarrow> real" where
  "c_fmod x y = x - y * of_int (py_int (x / y))"

definition fmod :: "real \<Rightarrow> real \<Rightarrow> real" where
  "fmod x y =
     (let m = c_fmod x y
      in if m \<noteq> 0 \<and> (y < 0) \<noteq> (m < 0) then rnd (m + y) else m)"

definition ffloordiv :: "real \<Rightarrow> real \<Rightarrow> real" where
  "ffloordiv x y =
     (let m = c_fmod x y;
          q = rnd (rnd (x - m) / y);
          d = (if m \<noteq> 0 \<and> (y < 0) \<noteq> (m < 0) then rnd (q - 1) else q)
      in if d \<noteq> 0
         then (let f = of_int \<lfloor>d\<rfloor> in if d - f > 1 / 2 then rnd (f + 1) else f)
         else 0)"

text \<open>
  \<open>round(x, n)\<close> on a float: the decimal with \<open>n\<close> places nearest to the exact value
  of \<open>x\<close>, ties to even, converted back to a float.
\<close>

definition py_round :: "real \<Rightarrow> nat \<Rightarrow> real" where
  "py_round x n = rnd (of_int (round_half_even (x * 10 ^ n)) / 10 ^ n)"

subsection \<open>Strings\<close>

text \<open>\<open>str(i)\<close> for an int, and the format specifier \<open>:02d\<close>.\<close>

definition digit_char :: "nat \<Rightarrow> char" where
  "digit_char d = ''0123456789'' ! d"

fun str_nat :: "nat \<Rightarrow> string" where
  "str_nat n = (if n < 10 then [digit_char n] else str_nat (n div 10) @ [digit_char (n mod 10)])"

declare str_nat.simps [simp del]

definition str_int :: "int \<Rightarrow> string" where
  "str_int i = (if i < 0 then CHR ''-'' # str_nat (nat (- i)) else str_nat (nat i))"

definition fmt_02d :: "int \<Rightarrow> string" where
  "fmt_02d i = (let s = str_int i in if length s < 2 then CHR ''0'' # s else s)"

text \<open>\<open>s.lower()\<close> and \<open>s.strip()\<close> on ASCII text, and \<open>s.split(c)\<close> for a one-character separator.\<close>

definition lower_char :: "char \<Rightarrow> char" where
  "lower_char c =
     (case map_of (zip ''ABCDEFGHIJKLMNOPQRSTUVWXYZ'' ''abcdefghijklmnopqrstuvwxyz'') c of
        Some d \<Rightarrow> d
      | None \<Rightarrow> c)"

definition py_lower :: "string \<Rightarrow> string" where
  "py_lower s = map lower_char s"

definition is_space :: "char \<Rightarrow> bool" where
  "is_space c =
     (c \<in> set [CHR '' '', CHR 0x09, CHR 0x0A, CHR 0x0B, CHR 0x0C, CHR 0x0D,
                CHR 0x1C, CHR 0x1D, CHR 0x1E, CHR 0x1F])"

definition py_strip :: "string \<Rightarrow> string" where
  "py_strip s = rev (dropWhile is_space (rev (dropWhile is_space s)))"

fun split_on :: "char \<Rightarrow> string \<Rightarrow> string list" where
  "split_on c [] = [[]]"
| "split_on c (x # xs) =
     (if x = c then [] # split_on c xs
      else (case split_on c xs of [] \<Rightarrow> [[x]] | y # ys \<Rightarrow> (x # y) # ys))"

subsection \<open>Paths\<close>

text \<open>
  A \<open>Path\<close> is carried by its text, read as \<open>pathlib\<close> reads it on a POSIX system: the
  root is \<open>//\<close> for exactly two leading slashes, \<open>/\<close> for any other number of them,
  and the parts are the components between slashes other than the empty one and the
  single dot.  \<open>str\<close> joins the parts behind the root and is a dot when there is
  neither.  \<open>name\<close> is the last part, or empty without parts; \<open>suffix\<close> starts at the
  last dot of the name unless that dot is its first or last character; \<open>stem\<close> is the
  name without the suffix.  \<open>d / f\<close> appends the parts of \<open>f\<close> to those of \<open>d\<close>, and is
  \<open>f\<close> alone when \<open>f\<close> has a root.
\<close>

type_synonym path = string

definition path_root :: "string \<Rightarrow> string" where
  "path_root s =
     (if take 2 s = ''//'' \<and> take 3 s \<noteq> ''///'' then ''//''
      else if take 1 s = ''/'' then ''/''
      else [])"

definition path_parts :: "string \<Rightarrow> string list" where
  "path_parts s = filter (\<lambda>c. c \<noteq> [] \<and> c \<noteq> ''.'') (split_on CHR ''/'' s)"

fun join_slash :: "string list \<Rightarrow> string" where
  "join_slash [] = []"
| "join_slash [p] = p"
| "join_slash (p # q # ps) = p @ ''/'' @ join_slash (q # ps)"

definition path_str :: "string \<Rightarrow> string list \<Rightarrow> path" where
  "path_str r ps = (if r = [] \<and> ps = [] then ''.'' else r @ join_slash ps)"

definition path_name :: "path \<Rightarrow> string" where
  "path_name p = (case path_parts p of [] \<Rightarrow> [] | q # qs \<Rightarrow> last (q # qs))"

definition has_suffix :: "string \<Rightarrow> bool" where
  "has_suffix name =
     (let tail = takeWhile (\<lambda>c. c \<noteq> CHR ''.'') (rev name)
      in CHR ''.'' \<in> set name \<and> tail \<noteq> [] \<and> length tail + 1 < length name)"

definition path_suffix :: "path \<Rightarrow> string" where
  "path_suffix p =
     (let name = path_name p
      in if has_suffix name then CHR ''.'' # rev (takeWhile (\<lambda>c. c \<noteq> CHR ''.'') (rev name))
         else [])"

definition path_stem :: "path \<Rightarrow> string" where
  "path_stem p =
     (let name = path_name p
      in if has_suffix name
         then take (length name - length (takeWhile (\<lambda>c. c \<noteq> CHR ''.'') (rev name)) - 1) name
         else name)"

definition path_join :: "path \<Rightarrow> string \<Rightarrow> path" where
  "path_join d f =
     (if path_root f \<noteq> [] then path_str (path_root f) (path_parts f)
      else path_str (path_root d) (path_parts d @ path_parts f))"

subsection \<open>Decoded JSON\<close>

text \<open>
  What \<open>json.loads\<close> returns.  A \<open>JObj\<close> lists the items of the dict, each key once.
\<close>

datatype json =
    JNull
  | JBool bool
  | JInt int
  | JFloat real
  | JStr string
  | JArr "json list"
  | JObj "(string \<times> json) list"

text \<open>\<open>v.get(key, default)\<close>: only a dict has the method.\<close>

definition py_get :: "json \<Rightarrow> string \<Rightarrow> json \<Rightarrow> error + json" where
  "py_get v key dflt =
     (case v of
        JObj items \<Rightarrow> Inr (case map_of items key of Some x \<Rightarrow> x | None \<Rightarrow> dflt)
      | _ \<Rightarrow> Inl AttributeError)"

text \<open>The truth value of a decoded value, as \<open>if v\<close>, \<open>v and w\<close> and \<open>v or w\<close> test it.\<close>

definition truthy :: "json \<Rightarrow> bool" where
  "truthy v =
     (case v of
        JNull \<Rightarrow> False
      | JBool b \<Rightarrow> b
      | JInt i \<Rightarrow> i \<noteq> 0
      | JFloat x \<Rightarrow> x \<noteq> 0
      | JStr s \<Rightarrow> s \<noteq> []
      | JArr xs \<Rightarrow> xs \<noteq> []
      | JObj items \<Rightarrow> items \<noteq> [])"

text \<open>\<open>for x in v\<close>: a list yields its elements, a dict its keys, a string its characters.\<close>

definition py_iter :: "json \<Rightarrow> error + json list" where
  "py_iter v =
     (case v of
        JArr xs \<Rightarrow> Inr xs
      | JObj items \<Rightarrow> Inr (map (\<lambda>(k, _). JStr k) items)
      | JStr s \<Rightarrow> Inr (map (\<lambda>c. JStr [c]) s)
      | _ \<Rightarrow> Inl TypeError)"

section \<open>The environment\<close>

text \<open>
  The external tools are reached through \<open>subprocess.run\<close>.  A command is the argument
  list the source builds, with its variable parts as fields:
  \<^item> \<open>FfmpegVersion\<close>: \<open>ffmpeg -version\<close>;
  \<^item> \<open>ProbeDuration p\<close>: \<open>ffprobe -v error -show_entries format=duration ... p\<close>;
  \<^item> \<open>ProbeInfo p\<close>: \<open>ffprobe -v quiet -print_format json -show_format -show_streams p\<close>;
  \<^item> \<open>StreamCopy i out ss t\<close>: \<open>ffmpeg -y -i i -ss ss -t t -c copy -avoid_negative_ts make_zero out\<close>;
  \<^item> \<open>Reencode i out ss t\<close>: \<open>ffmpeg -y -i i -ss ss -t t -c:v libx264 -preset medium -crf 23 -c:a aac -b:a 128k out\<close>;
  \<^item> \<open>CrfEncode i out crf a\<close>: \<open>ffmpeg -y -i i -c:v libx264 -preset medium -crf crf -c:a aac -b:a ak out\<close>;
  \<^item> \<open>ScaleEncode i out h crf a\<close>: the same with \<open>-vf scale=-2:h\<close>;
  \<^item> \<open>Pass1 i b log\<close>: \<open>ffmpeg -y -i i -c:v libx264 -preset medium -b:v bk -pass 1 -passlogfile log -an -f null /dev/null\<close>;
  \<^item> \<open>Pass2 i out b a log\<close>: \<open>ffmpeg -y -i i -c:v libx264 -preset medium -b:v bk -pass 2 -passlogfile log -c:a aac -b:a ak out\<close>.
\<close>

datatype command =
    FfmpegVersion
  | ProbeDuration path
  | ProbeInfo path
  | StreamCopy path path real real
  | Reencode path path real real
  | CrfEncode path path int int
  | ScaleEncode path path int int int
  | Pass1 path int path
  | Pass2 path path int int path

text \<open>
  A run either completes with a return code, its standard output and its standard
  error, or raises; an exception carries its text.  Whatever the outcome, the tool has
  left the output file of the command untouched or has written it with some size.
\<close>

datatype run_status =
    Exited int string string
  | TimeoutExpired string
  | FileNotFound string
  | OtherException string

datatype file_effect = Untouched | Wrote nat

text \<open>
  The environment of a request: the scripted behaviour of the tools, the library
  functions \<open>json.loads\<close>, \<open>float\<close> and \<open>int\<close> on text (\<open>Inl\<close> carries the text of the
  exception they raise), \<open>str\<close> on decoded values other than int, string, bool and None,
  the power \<open>x ** y\<close> of two floats, which CPython takes from the C library, and the
  directory \<open>tempfile.TemporaryDirectory\<close> creates.
\<close>

record env =
  run :: "command \<Rightarrow> run_status \<times> file_effect"
  json_loads :: "string \<Rightarrow> string + json"
  float_of_str :: "string \<Rightarrow> string + real"
  int_of_str :: "string \<Rightarrow> string + int"
  str_of_json :: "json \<Rightarrow> string"
  float_pow :: "real \<Rightarrow> real \<Rightarrow> real"
  temp_dir :: path

text \<open>The state a request changes: the size of every file, and the commands run so far.\<close>

record world =
  files :: "path \<rightharpoonup> nat"
  calls :: "command list"

definition output_of :: "command \<Rightarrow> path option" where
  "output_of c =
     (case c of
        StreamCopy _ out _ _ \<Rightarrow> Some out
      | Reencode _ out _ _ \<Rightarrow> Some out
      | CrfEncode _ out _ _ \<Rightarrow> Some out
      | ScaleEncode _ out _ _ _ \<Rightarrow> Some out
      | Pass2 _ out _ _ _ \<Rightarrow> Some out
      | _ \<Rightarrow> None)"

definition subprocess_run :: "env \<Rightarrow> command \<Rightarrow> world \<Rightarrow> run_status \<times> world" where
  "subprocess_run env c w =
     (let (st, eff) = run env c;
          fs = (case (eff, output_of c) of
                  (Wrote n, Some p) \<Rightarrow> (files w)(p \<mapsto> n)
                | _ \<Rightarrow> files w)
      in (st, w\<lparr>files := fs, calls := calls w @ [c]\<rparr>))"

definition unlink :: "path \<Rightarrow> world \<Rightarrow> world" where
  "unlink p w = w\<lparr>files := (files w)(p := None)\<rparr>"

text \<open>\<open>p.exists() and p.stat().st_size > n\<close>.\<close>

definition exists_larger :: "world \<Rightarrow> path \<Rightarrow> nat \<Rightarrow> bool" where
  "exists_larger w p n = (case files w p of None \<Rightarrow> False | Some sz \<Rightarrow> n < sz)"

definition path_exists :: "world \<Rightarrow> path \<Rightarrow> bool" where
  "path_exists w p = (files w p \<noteq> None)"

section \<open>The video service\<close>

text \<open>
  The functions of \<open>app/services/video_service.py\<close>, under their names; the private
  helpers \<open>_split_segment_stream_copy\<close>, \<open>_split_segment_reencode\<close>,
  \<open>_get_crf_for_preset\<close> and \<open>_run_two_pass_encode\<close> lose the leading underscore.
  A function that runs a tool takes the state and returns its result with the new
  state; a raised exception is the result \<open>Inl\<close>.
\<close>

subsection \<open>Duration formatting\<close>

definition format_duration :: "real \<Rightarrow> string" where
  "format_duration seconds =
     (let hours = py_int (ffloordiv seconds 3600);
          minutes = py_int (ffloordiv (fmod seconds 3600) 60);
          secs = py_int (fmod seconds 60)
      in if hours > 0 then str_int hours @ '':'' @ fmt_02d minutes @ '':'' @ fmt_02d secs
         else str_int minutes @ '':'' @ fmt_02d secs)"

subsection \<open>Split planning\<close>

definition calculate_split_times :: "real \<Rightarrow> int \<Rightarrow> error + (real \<times> real) list" where
  "calculate_split_times duration num_parts =
     (if num_parts < 2 then Inl (ValueError ''Number of parts must be at least 2'')
      else if num_parts > 20 then Inl (ValueError ''Number of parts cannot exceed 20'')
      else
        let part_duration = fdiv duration (of_int num_parts)
        in Inr (map (\<lambda>i. (fmul (of_nat i) part_duration, fmul (of_nat (i + 1)) part_duration))
                  [0..<nat num_parts]))"

subsection \<open>Probing\<close>

definition check_ffmpeg_installed :: "env \<Rightarrow> world \<Rightarrow> (error + bool) \<times> world" where
  "check_ffmpeg_installed env w =
     (let (st, w1) = subprocess_run env FfmpegVersion w
      in (case st of
            Exited _ _ _ \<Rightarrow> Inr True
          | FileNotFound _ \<Rightarrow> Inr False
          | TimeoutExpired _ \<Rightarrow> Inr False
          | OtherException m \<Rightarrow> Inl (OtherError m),
          w1))"

text \<open>
  The handler of \<open>get_video_duration\<close> catches \<open>TimeoutExpired\<close> and \<open>ValueError\<close>,
  its own \<open>ValueError\<close> for a non-zero return code included, and raises a new
  \<open>ValueError\<close> around the text; every other exception passes through.
\<close>

definition get_video_duration :: "env \<Rightarrow> path \<Rightarrow> world \<Rightarrow> (error + real) \<times> world" where
  "get_video_duration env video_path w =
     (let (st, w1) = subprocess_run env (ProbeDuration video_path) w
      in (case st of
            Exited returncode out _ \<Rightarrow>
              if returncode \<noteq> 0
              then Inl (ValueError (''Failed to get video duration: '' @ ''Failed to get video duration''))
              else (case float_of_str env (py_strip out) of
                      Inl m \<Rightarrow> Inl (ValueError (''Failed to get video duration: '' @ m))
                    | Inr duration \<Rightarrow> Inr duration)
          | TimeoutExpired m \<Rightarrow> Inl (ValueError (''Failed to get video duration: '' @ m))
          | FileNotFound _ \<Rightarrow> Inl FileNotFoundError
          | OtherException m \<Rightarrow> Inl (OtherError m),
          w1))"

text \<open>\<open>float(v)\<close> and \<open>int(v)\<close> on a decoded value.\<close>

definition py_float :: "env \<Rightarrow> json \<Rightarrow> error + real" where
  "py_float env v =
     (case v of
        JStr s \<Rightarrow> (case float_of_str env s of Inl m \<Rightarrow> Inl (ValueError m) | Inr x \<Rightarrow> Inr x)
      | JInt i \<Rightarrow> Inr (rnd (of_int i))
      | JFloat x \<Rightarrow> Inr x
      | JBool b \<Rightarrow> Inr (if b then 1 else 0)
      | _ \<Rightarrow> Inl TypeError)"

definition py_int_of :: "env \<Rightarrow> json \<Rightarrow> error + int" where
  "py_int_of env v =
     (case v of
        JStr s \<Rightarrow> (case int_of_str env s of Inl m \<Rightarrow> Inl (ValueError m) | Inr i \<Rightarrow> Inr i)
      | JInt i \<Rightarrow> Inr i
      | JFloat x \<Rightarrow> Inr (py_int x)
      | JBool b \<Rightarrow> Inr (if b then 1 else 0)
      | _ \<Rightarrow> Inl TypeError)"

text \<open>\<open>str(v)\<close>, as an f-string formats a decoded value.\<close>

definition py_str :: "env \<Rightarrow> json \<Rightarrow> string" where
  "py_str env v =
     (case v of
        JStr s \<Rightarrow> s
      | JInt i \<Rightarrow> str_int i
      | JBool b \<Rightarrow> (if b then ''True'' else ''False'')
      | JNull \<Rightarrow> ''None''
      | _ \<Rightarrow> str_of_json env v)"

record video_info =
  info_filename :: string
  info_duration :: real
  info_duration_formatted :: string
  info_size :: int
  info_video_codec :: json
  info_resolution :: string

text \<open>
  The loop over the streams: the codec name, width and height of the first stream whose
  \<open>codec_type\<close> is \<open>video\<close>, or the initial \<open>None\<close>, 0 and 0 when there is none.
\<close>

fun find_video_stream :: "json list \<Rightarrow> error + json \<times> json \<times> json" where
  "find_video_stream [] = Inr (JNull, JInt 0, JInt 0)"
| "find_video_stream (stream # rest) =
     (case py_get stream ''codec_type'' JNull of
        Inl e \<Rightarrow> Inl e
      | Inr t \<Rightarrow>
          if t = JStr ''video''
          then (case py_get stream ''codec_name'' (JStr ''unknown'') of
                  Inl e \<Rightarrow> Inl e
                | Inr video_codec \<Rightarrow>
                    (case py_get stream ''width'' (JInt 0) of
                       Inl e \<Rightarrow> Inl e
                     | Inr width \<Rightarrow>
                         (case py_get stream ''height'' (JInt 0) of
                            Inl e \<Rightarrow> Inl e
                          | Inr height \<Rightarrow> Inr (video_codec, width, height))))
          else find_video_stream rest)"

text \<open>The body of \<open>get_video_info\<close> after \<open>json.loads\<close>, before its handler.\<close>

definition video_info_of :: "env \<Rightarrow> path \<Rightarrow> json \<Rightarrow> error + video_info" where
  "video_info_of env video_path data =
     (case py_get data ''format'' (JObj []) of
        Inl e \<Rightarrow> Inl e
      | Inr format_info \<Rightarrow>
     (case py_get format_info ''duration'' (JInt 0) of
        Inl e \<Rightarrow> Inl e
      | Inr d \<Rightarrow>
     (case py_float env d of
        Inl e \<Rightarrow> Inl e
      | Inr duration \<Rightarrow>
     (case py_get format_info ''size'' (JInt 0) of
        Inl e \<Rightarrow> Inl e
      | Inr s \<Rightarrow>
     (case py_int_of env s of
        Inl e \<Rightarrow> Inl e
      | Inr size_bytes \<Rightarrow>
     (case py_get data ''streams'' (JArr []) of
        Inl e \<Rightarrow> Inl e
      | Inr streams \<Rightarrow>
     (case py_iter streams of
        Inl e \<Rightarrow> Inl e
      | Inr stream_list \<Rightarrow>
     (case find_video_stream stream_list of
        Inl e \<Rightarrow> Inl e
      | Inr (video_codec, width, height) \<Rightarrow>
          Inr \<lparr>info_filename = path_name video_path,
               info_duration = duration,
               info_duration_formatted = format_duration duration,
               info_size = size_bytes,
               info_video_codec = (if truthy video_codec then video_codec else JStr ''unknown''),
               info_resolution =
                 (if truthy width \<and> truthy height
                  then py_str env width @ ''x'' @ py_str env height
                  else ''unknown'')\<rparr>))))))))"

text \<open>
  The handler of \<open>get_video_info\<close> catches \<open>TimeoutExpired\<close>, \<open>JSONDecodeError\<close> and
  \<open>ValueError\<close> and raises a new \<open>ValueError\<close> around the text.
\<close>

definition get_video_info :: "env \<Rightarrow> path \<Rightarrow> world \<Rightarrow> (error + video_info) \<times> world" where
  "get_video_info env video_path w =
     (let (st, w1) = subprocess_run env (ProbeInfo video_path) w
      in (case st of
            Exited returncode out _ \<Rightarrow>
              if returncode \<noteq> 0
              then Inl (ValueError (''Failed to get video info: '' @ ''Failed to read video file''))
              else (case json_loads env out of
                      Inl m \<Rightarrow> Inl (ValueError (''Failed to get video info: '' @ m))
                    | Inr data \<Rightarrow>
                        (case video_info_of env video_path data of
                           Inl (ValueError m) \<Rightarrow> Inl (ValueError (''Failed to get video info: '' @ m))
                         | Inl e \<Rightarrow> Inl e
                         | Inr info \<Rightarrow> Inr info))
          | TimeoutExpired m \<Rightarrow> Inl (ValueError (''Failed to get video info: '' @ m))
          | FileNotFound _ \<Rightarrow> Inl FileNotFoundError
          | OtherException m \<Rightarrow> Inl (OtherError m),
          w1))"

subsection \<open>Splitting\<close>

text \<open>Both segment functions catch every exception, remove the output and return \<open>False\<close>.\<close>

definition split_segment_stream_copy ::
  "env \<Rightarrow> path \<Rightarrow> path \<Rightarrow> real \<Rightarrow> real \<Rightarrow> world \<Rightarrow> bool \<times> world" where
  "split_segment_stream_copy env input_path output_path start_time duration w =
     (let (st, w1) = subprocess_run env (StreamCopy input_path output_path start_time duration) w
      in (case st of
            Exited returncode _ _ \<Rightarrow>
              if returncode = 0 \<and> exists_larger w1 output_path 1000 then (True, w1)
              else (False, unlink output_path w1)
          | _ \<Rightarrow> (False, unlink output_path w1)))"

definition split_segment_reencode ::
  "env \<Rightarrow> path \<Rightarrow> path \<Rightarrow> real \<Rightarrow> real \<Rightarrow> world \<Rightarrow> bool \<times> world" where
  "split_segment_reencode env input_path output_path start_time duration w =
     (let (st, w1) = subprocess_run env (Reencode input_path output_path start_time duration) w
      in (case st of
            Exited returncode _ _ \<Rightarrow>
              if returncode = 0 \<and> exists_larger w1 output_path 1000 then (True, w1)
              else (False, unlink output_path w1)
          | _ \<Rightarrow> (False, unlink output_path w1)))"

definition part_path :: "path \<Rightarrow> path \<Rightarrow> nat \<Rightarrow> path" where
  "part_path video_path output_dir i =
     path_join output_dir
       (path_stem video_path @ ''_part'' @ str_int (int i) @ path_suffix video_path)"

text \<open>
  The loop of \<open>split_video\<close> over \<open>enumerate(split_times, 1)\<close>, with the list
  \<open>output_paths\<close> it appends to.
\<close>

fun split_parts ::
  "env \<Rightarrow> path \<Rightarrow> path \<Rightarrow> bool \<Rightarrow> (nat \<times> real \<times> real) list \<Rightarrow> path list \<Rightarrow> world
     \<Rightarrow> (error + path list) \<times> world" where
  "split_parts env video_path output_dir use_stream_copy [] output_paths w =
     (Inr output_paths, w)"
| "split_parts env video_path output_dir use_stream_copy ((i, start_time, end_time) # rest)
     output_paths w =
     (let output_path = part_path video_path output_dir i;
          segment_duration = fsub end_time start_time;
          (copied, w1) =
            (if use_stream_copy
             then split_segment_stream_copy env video_path output_path start_time segment_duration w
             else (False, w))
      in if copied
         then split_parts env video_path output_dir use_stream_copy rest
                (output_paths @ [output_path]) w1
         else
           let (success, w2) =
                 split_segment_reencode env video_path output_path start_time segment_duration w1
           in if success
              then split_parts env video_path output_dir use_stream_copy rest
                     (output_paths @ [output_path]) w2
              else (Inl (ValueError (''Failed to split video at part '' @ str_int (int i))),
                    fold unlink output_paths w2))"

definition enumerate1 :: "'a list \<Rightarrow> (nat \<times> 'a) list" where
  "enumerate1 xs = zip [1..<Suc (length xs)] xs"

definition split_video ::
  "env \<Rightarrow> path \<Rightarrow> int \<Rightarrow> path \<Rightarrow> bool \<Rightarrow> world \<Rightarrow> (error + path list) \<times> world" where
  "split_video env video_path num_parts output_dir use_stream_copy w =
     (case check_ffmpeg_installed env w of
        (Inl e, w1) \<Rightarrow> (Inl e, w1)
      | (Inr False, w1) \<Rightarrow> (Inl (RuntimeError ''FFmpeg is not installed''), w1)
      | (Inr True, w1) \<Rightarrow>
          if num_parts < 2 \<or> num_parts > 20
          then (Inl (ValueError ''Number of parts must be between 2 and 20''), w1)
          else
            (case get_video_duration env video_path w1 of
               (Inl e, w2) \<Rightarrow> (Inl e, w2)
             | (Inr duration, w2) \<Rightarrow>
                 (case calculate_split_times duration num_parts of
                    Inl e \<Rightarrow> (Inl e, w2)
                  | Inr split_times \<Rightarrow>
                      split_parts env video_path output_dir use_stream_copy
                        (enumerate1 split_times) [] w2)))"

text \<open>
  The acceptance test both segment functions apply, on the raw outcome of the tool:
  the run exited with return code 0 and the output file, as the run left it, exists with
  more than 1000 bytes.  \<open>before\<close> is the size of the output file before the run.
\<close>

definition tool_accepts :: "env \<Rightarrow> command \<Rightarrow> nat option \<Rightarrow> bool" where
  "tool_accepts env c before =
     (let (st, eff) = run env c;
          size_after = (case eff of Wrote n \<Rightarrow> Some n | Untouched \<Rightarrow> before)
      in (case st of Exited returncode _ _ \<Rightarrow> returncode = 0 | _ \<Rightarrow> False)
         \<and> (case size_after of Some n \<Rightarrow> 1000 < n | None \<Rightarrow> False))"

text \<open>
  A part fails when the loop body, started in \<open>w\<close>, gets \<open>False\<close> from the stream copy
  and then from the re-encode.
\<close>

definition part_fails :: "env \<Rightarrow> path \<Rightarrow> path \<Rightarrow> world \<Rightarrow> nat \<times> real \<times> real \<Rightarrow> bool" where
  "part_fails env video_path output_dir w part =
     (case part of (i, start_time, end_time) \<Rightarrow>
        let output_path = part_path video_path output_dir i;
            segment_duration = fsub end_time start_time;
            (copied, w1) =
              split_segment_stream_copy env video_path output_path start_time segment_duration w
        in \<not> copied
           \<and> \<not> fst (split_segment_reencode env video_path output_path start_time
                       segment_duration w1))"

subsection \<open>Compression\<close>

definition get_crf_for_preset :: "string \<Rightarrow> int" where
  "get_crf_for_preset preset =
     (case map_of [(''low'', 28), (''medium'', 23), (''high'', 18)] (py_lower preset) of
        Some crf \<Rightarrow> crf
      | None \<Rightarrow> 23)"

definition run_two_pass_encode ::
  "env \<Rightarrow> path \<Rightarrow> path \<Rightarrow> real \<Rightarrow> int \<Rightarrow> path \<Rightarrow> world \<Rightarrow> bool \<times> world" where
  "run_two_pass_encode env input_path output_path video_bitrate_kbps audio_bitrate_kbps
     passlogfile w =
     (let (st1, w1) = subprocess_run env (Pass1 input_path (py_int video_bitrate_kbps) passlogfile) w
      in (case st1 of
            Exited returncode1 _ _ \<Rightarrow>
              if returncode1 \<noteq> 0 then (False, w1)
              else
                let (st2, w2) =
                      subprocess_run env
                        (Pass2 input_path output_path (py_int video_bitrate_kbps)
                           audio_bitrate_kbps passlogfile) w1
                in (case st2 of
                      Exited returncode2 _ _ \<Rightarrow>
                        if returncode2 = 0 \<and> path_exists w2 output_path then (True, w2)
                        else (False, unlink output_path w2)
                    | _ \<Rightarrow> (False, unlink output_path w2))
          | _ \<Rightarrow> (False, unlink output_path w1)))"

definition compress_target_size ::
  "env \<Rightarrow> path \<Rightarrow> real \<Rightarrow> path \<Rightarrow> int \<Rightarrow> world \<Rightarrow> (error + path) \<times> world" where
  "compress_target_size env video_path target_size_mb output_path audio_bitrate_kbps w =
     (case check_ffmpeg_installed env w of
        (Inl e, w1) \<Rightarrow> (Inl e, w1)
      | (Inr False, w1) \<Rightarrow> (Inl (RuntimeError ''FFmpeg is not installed''), w1)
      | (Inr True, w1) \<Rightarrow>
          (case get_video_duration env video_path w1 of
             (Inl e, w2) \<Rightarrow> (Inl e, w2)
           | (Inr duration, w2) \<Rightarrow>
               (case py_truediv (fmul target_size_mb 8192) duration of
                  Inl e \<Rightarrow> (Inl e, w2)
                | Inr q \<Rightarrow>
                    let target_bitrate_kbps = fsub q (rnd (of_int audio_bitrate_kbps))
                    in if target_bitrate_kbps < 100
                       then (Inl (ValueError
                               ''Target size too small - would result in unplayable video''), w2)
                       else
                         let passlogfile = path_join (temp_dir env) ''ffmpeg2pass'';
                             (success, w3) =
                               run_two_pass_encode env video_path output_path
                                 target_bitrate_kbps audio_bitrate_kbps passlogfile w2
                         in if \<not> success then (Inl (ValueError ''Video compression failed''), w3)
                            else (Inr output_path, w3))))"

text \<open>
  \<open>encode_checked\<close> is the \<open>try\<close> block that \<open>compress_quality\<close> and
  \<open>compress_resolution\<close> have in common, run on the command each of them builds.  The
  \<open>ValueError\<close> it raises for a failed run is caught by its own handler for
  \<open>Exception\<close>, which removes the output and raises a new \<open>ValueError\<close> around the
  text.
\<close>

definition encode_checked :: "env \<Rightarrow> command \<Rightarrow> path \<Rightarrow> world \<Rightarrow> (error + path) \<times> world" where
  "encode_checked env command output_path w =
     (let (st, w1) = subprocess_run env command w
      in (case st of
            Exited returncode _ err \<Rightarrow>
              if returncode \<noteq> 0 \<or> \<not> path_exists w1 output_path
              then (Inl (ValueError (''Compression failed: '' @ ''FFmpeg failed: '' @ err)),
                    unlink output_path w1)
              else (Inr output_path, w1)
          | TimeoutExpired _ \<Rightarrow>
              (Inl (ValueError ''Compression timed out (>1 hour)''), unlink output_path w1)
          | FileNotFound m \<Rightarrow>
              (Inl (ValueError (''Compression failed: '' @ m)), unlink output_path w1)
          | OtherException m \<Rightarrow>
              (Inl (ValueError (''Compression failed: '' @ m)), unlink output_path w1)))"


definition resolution_map :: "string \<rightharpoonup> int" where
  "resolution_map =
     map_of [(''2160p'', 2160), (''1440p'', 1440), (''1080p'', 1080), (''720p'', 720),
             (''480p'', 480), (''360p'', 360)]"

definition compress_resolution ::
  "env \<Rightarrow> path \<Rightarrow> string \<Rightarrow> string \<Rightarrow> path \<Rightarrow> int \<Rightarrow> world \<Rightarrow> (error + path) \<times> world" where
  "compress_resolution env video_path resolution quality_preset output_path audio_bitrate_kbps w =
     (case check_ffmpeg_installed env w of
        (Inl e, w1) \<Rightarrow> (Inl e, w1)
      | (Inr False, w1) \<Rightarrow> (Inl (RuntimeError ''FFmpeg is not installed''), w1)
      | (Inr True, w1) \<Rightarrow>
          (case resolution_map resolution of
             None \<Rightarrow> (Inl (ValueError (''Invalid resolution: '' @ resolution)), w1)
           | Some height \<Rightarrow>
               let crf = get_crf_for_preset quality_preset
               in encode_checked env
                    (ScaleEncode video_path output_path height crf audio_bitrate_kbps)
                    output_path w1))"

subsection \<open>Size estimation\<close>

record estimate =
  est_original_size_mb :: real
  est_estimated_size_mb :: real
  est_reduction_percent :: real

text \<open>
  The ratio tables hold the floats nearest to 0.3, 0.5 and 0.7.  Optional arguments are
  \<open>None\<close> when absent, and an argument counts as given when it is truthy: a float
  other than zero, a string that is not empty.
\<close>

definition compression_ratio :: "string \<Rightarrow> real" where
  "compression_ratio preset =
     (case map_of [(''low'', rnd (3 / 10)), (''medium'', rnd (1 / 2)), (''high'', rnd (7 / 10))]
             (py_lower preset) of
        Some r \<Rightarrow> r
      | None \<Rightarrow> rnd (1 / 2))"

definition given_float :: "real option \<Rightarrow> bool" where
  "given_float v = (case v of None \<Rightarrow> False | Some x \<Rightarrow> x \<noteq> 0)"

definition given_str :: "string option \<Rightarrow> bool" where
  "given_str v = (case v of None \<Rightarrow> False | Some s \<Rightarrow> s \<noteq> [])"

definition estimated_size ::
  "env \<Rightarrow> video_info \<Rightarrow> real \<Rightarrow> string \<Rightarrow> real option \<Rightarrow> string option \<Rightarrow> string option
     \<Rightarrow> error + real" where
  "estimated_size env info original_size_mb mode target_size_mb quality_preset resolution =
     (if mode = ''target_size'' \<and> given_float target_size_mb then Inr (the target_size_mb)
      else if mode = ''quality'' \<and> given_str quality_preset
      then Inr (fmul original_size_mb (compression_ratio (the quality_preset)))
      else if mode = ''resolution'' \<and> given_str resolution \<and> given_str quality_preset
      then
        let res_parts = split_on CHR ''x'' (info_resolution info)
        in if length res_parts = 2
           then
             (case int_of_str env (res_parts ! 1) of
                Inl m \<Rightarrow> Inl (ValueError m)
              | Inr current_height \<Rightarrow>
                  let target_height =
                        (case resolution_map (the resolution) of
                           Some h \<Rightarrow> h
                         | None \<Rightarrow> current_height)
                  in (case py_truediv (of_int target_height) (of_int current_height) of
                        Inl e \<Rightarrow> Inl e
                      | Inr q \<Rightarrow>
                          let scale_factor = float_pow env q 2;
                              quality_factor = compression_ratio (the quality_preset)
                          in Inr (fmul (fmul original_size_mb scale_factor) quality_factor)))
           else Inr (fmul original_size_mb (rnd (1 / 2)))
      else Inr original_size_mb)"

definition estimate_output_size ::
  "env \<Rightarrow> path \<Rightarrow> string \<Rightarrow> real option \<Rightarrow> string option \<Rightarrow> string option \<Rightarrow> world
     \<Rightarrow> (error + estimate) \<times> world" where
  "estimate_output_size env video_path mode target_size_mb quality_preset resolution w =
     (case get_video_info env video_path w of
        (Inl e, w1) \<Rightarrow> (Inl e, w1)
      | (Inr info, w1) \<Rightarrow>
          let original_size_mb = fdiv (of_int (info_size info)) (of_int (1024 * 1024))
          in (case estimated_size env info original_size_mb mode target_size_mb quality_preset
                     resolution of
                Inl e \<Rightarrow> (Inl e, w1)
              | Inr estimated_size_mb \<Rightarrow>
                  (case py_truediv (fsub original_size_mb estimated_size_mb) original_size_mb of
                     Inl e \<Rightarrow> (Inl e, w1)
                   | Inr q \<Rightarrow>
                       let reduction_pct = fmul q 100
                       in (Inr \<lparr>est_original_size_mb = py_round original_size_mb 2,
                                est_estimated_size_mb = py_round estimated_size_mb 2,
                                est_reduction_percent = py_round reduction_pct 1\<rparr>, w1))))"

section \<open>Scripted environments for the worked examples\<close>

text \<open>
  A split of a 600 second file: every stream copy succeeds with a large file except
  the one that starts at 240 seconds, which exits with 0 and leaves 500 bytes; every
  re-encode fails.  No example takes a power, and the scripted one always answers 1.
\<close>

definition split_demo_run :: "command \<Rightarrow> run_status \<times> file_effect" where
  "split_demo_run c =
     (case c of
        FfmpegVersion \<Rightarrow> (Exited 0 ''ffmpeg version 6.0'' [], Untouched)
      | ProbeDuration _ \<Rightarrow> (Exited 0 (''600.000000'' @ [CHR 0x0A]) [], Untouched)
      | StreamCopy _ _ start_time _ \<Rightarrow>
          if start_time = 240 then (Exited 0 [] [], Wrote 500)
          else (Exited 0 [] [], Wrote 5000000)
      | Reencode _ _ _ _ \<Rightarrow> (Exited 1 [] ''Conversion failed!'', Untouched)
      | _ \<Rightarrow> (FileNotFound ''No such file or directory'', Untouched))"

definition split_demo_env :: env where
  "split_demo_env =
     \<lparr>run = split_demo_run,
      json_loads = (\<lambda>_. Inl ''Expecting value''),
      float_of_str = (\<lambda>s. if s = ''600.000000'' then Inr 600
                           else Inl ''could not convert string to float''),
      int_of_str = (\<lambda>_. Inl ''invalid literal for int()''),
      str_of_json = (\<lambda>_. []),
      float_pow = (\<lambda>_ _. 1),
      temp_dir = ''/tmp/tmp0''\<rparr>"

text \<open>
  A compression of the same file: every encode and both passes exit with 0 and write a
  large file.
\<close>

definition compress_demo_run :: "command \<Rightarrow> run_status \<times> file_effect" where
  "compress_demo_run c =
     (case c of
        FfmpegVersion \<Rightarrow> (Exited 0 ''ffmpeg version 6.0'' [], Untouched)
      | ProbeDuration _ \<Rightarrow> (Exited 0 (''600.000000'' @ [CHR 0x0A]) [], Untouched)
      | Pass1 _ _ _ \<Rightarrow> (Exited 0 [] [], Untouched)
      | _ \<Rightarrow> (Exited 0 [] [], Wrote 50000000))"

definition compress_demo_env :: env where
  "compress_demo_env = split_demo_env\<lparr>run := compress_demo_run\<rparr>"

text \<open>
  A probe that exits with 0 and whose output \<open>json.loads\<close> decodes to the given
  document.  \<open>float\<close> and \<open>int\<close> read the texts the documents below use.
\<close>

definition probe_demo_env :: "json \<Rightarrow> env" where
  "probe_demo_env data =
     \<lparr>run = (\<lambda>_. (Exited 0 ''{...}'' [], Untouched)),
      json_loads = (\<lambda>_. Inr data),
      float_of_str = (\<lambda>s. if s = ''600.000000'' then Inr 600
                           else Inl ''could not convert string to float''),
      int_of_str = (\<lambda>s. if s = ''104857600'' then Inr 104857600
                         else if s = ''0'' then Inr 0
                         else Inl ''invalid literal for int()''),
      str_of_json = (\<lambda>_. []),
      float_pow = (\<lambda>_ _. 1),
      temp_dir = ''/tmp/tmp0''\<rparr>"

text \<open>A 100 MB video, a file without streams, and a video whose format reports no size.\<close>

definition video_100mb :: json where
  "video_100mb =
     JObj [(''format'', JObj [(''duration'', JStr ''600.000000''), (''size'', JStr ''104857600'')]),
           (''streams'', JArr [JObj [(''codec_type'', JStr ''video''), (''codec_name'', JStr ''h264''),
                                     (''width'', JInt 1920), (''height'', JInt 1080)]])]"

definition no_streams :: json where
  "no_streams =
     JObj [(''format'', JObj [(''duration'', JStr ''600.000000''), (''size'', JStr ''104857600'')]),
           (''streams'', JArr [])]"

definition video_no_size :: json where
  "video_no_size =
     JObj [(''format'', JObj [(''duration'', JStr ''600.000000'')]),
           (''streams'', JArr [JObj [(''codec_type'', JStr ''video''), (''codec_name'', JStr ''h264''),
                                     (''width'', JInt 1920), (''height'', JInt 1080)]])]"

definition empty_world :: world where
  "empty_world = \<lparr>files = Map.empty, calls = []\<rparr>"

section \<open>Properties\<close>

subsection \<open>Facts about floats\<close>




lemma ulp_search_eqI:
  "e0 \<le> r \<Longrightarrow> r \<le> e0 + int k \<Longrightarrow> (\<And>e'. e0 \<le> e' \<Longrightarrow> e' < r \<Longrightarrow> \<not> x < 2 ^ 53 * 2 powi e')
     \<Longrightarrow> (r < e0 + int k \<Longrightarrow> x < 2 ^ 53 * 2 powi r) \<Longrightarrow> ulp_search k x e0 = r"
proof (induction k arbitrary: e0)
  case 0
  then show ?case by simp
next
  case (Suc k)
  show ?case
  proof (cases "x < 2 ^ 53 * 2 powi e0")
    case True
    then have "\<not> e0 < r" using Suc.prems(3) [of e0] by auto
    then have "r = e0" using Suc.prems(1) by simp
    then show ?thesis using True by simp
  next
    case False
    then have "r \<noteq> e0" using Suc.prems(4) by auto
    then have "e0 + 1 \<le> r" using Suc.prems(1) by simp
    moreover have "r \<le> e0 + 1 + int k" using Suc.prems(2) by simp
    ultimately have "ulp_search k x (e0 + 1) = r"
      using Suc.prems(3,4) by (intro Suc.IH) auto
    then show ?thesis using False by simp
  qed
qed

lemma ulp_search_bounds: "e0 \<le> ulp_search k x e0 \<and> ulp_search k x e0 \<le> e0 + int k"
proof (induction k arbitrary: e0)
  case 0
  then show ?case by simp
next
  case (Suc k)
  show ?case using Suc.IH [of "e0 + 1"] by auto
qed

lemma ulp_search_found:
  "ulp_search k x e0 < e0 + int k \<Longrightarrow> x < 2 ^ 53 * 2 powi (ulp_search k x e0)"
proof (induction k arbitrary: e0)
  case 0
  then show ?case by simp
next
  case (Suc k)
  show ?case
  proof (cases "x < 2 ^ 53 * 2 powi e0")
    case True
    then show ?thesis by simp
  next
    case False
    then show ?thesis using Suc.IH [of "e0 + 1"] Suc.prems by simp
  qed
qed

lemma ulp_search_passed:
  "e0 \<le> e' \<Longrightarrow> e' < ulp_search k x e0 \<Longrightarrow> \<not> x < 2 ^ 53 * 2 powi e'"
proof (induction k arbitrary: e0)
  case 0
  then show ?case by simp
next
  case (Suc k)
  show ?case
  proof (cases "x < 2 ^ 53 * 2 powi e0")
    case True
    then show ?thesis using Suc.prems by simp
  next
    case False
    show ?thesis
    proof (cases "e' = e0")
      case True
      then show ?thesis using False by simp
    next
      case ne: False
      then show ?thesis using Suc.IH [of "e0 + 1"] Suc.prems False by simp
    qed
  qed
qed

lemma two_powi_step: "(2::real) ^ 53 * 2 powi (e - 1) = 2 ^ 52 * 2 powi e"
  by (simp add: power_int_diff)

lemma ulp_exp_range: "- 1074 \<le> ulp_exp x \<and> ulp_exp x \<le> 971"
  using ulp_search_bounds [of "- 1074" 2045 "\<bar>x\<bar>"] by (simp add: ulp_exp_def)

lemma ulp_exp_lower: "- 1074 < ulp_exp x \<Longrightarrow> 2 ^ 52 * 2 powi (ulp_exp x) \<le> \<bar>x\<bar>"
proof -
  assume a: "- 1074 < ulp_exp x"
  have "\<not> \<bar>x\<bar> < 2 ^ 53 * 2 powi (ulp_exp x - 1)"
    using ulp_search_passed [of "- 1074" "ulp_exp x - 1" 2045 "\<bar>x\<bar>"] a
    by (simp add: ulp_exp_def)
  then show ?thesis by (simp only: two_powi_step not_less)
qed

lemma ulp_exp_upper: "ulp_exp x < 971 \<Longrightarrow> \<bar>x\<bar> < 2 ^ 53 * 2 powi (ulp_exp x)"
  using ulp_search_found [of 2045 "\<bar>x\<bar>" "- 1074"] by (simp add: ulp_exp_def)

lemma ulp_exp_eqI:
  assumes "- 1074 < e" "e \<le> 971" "2 ^ 52 * 2 powi e \<le> \<bar>x\<bar>" "\<bar>x\<bar> < 2 ^ 53 * 2 powi e"
  shows "ulp_exp x = e"
  unfolding ulp_exp_def
proof (rule ulp_search_eqI)
  show "- 1074 \<le> e" using assms(1) by simp
  show "e \<le> - 1074 + int 2045" using assms(2) by simp
  show "\<bar>x\<bar> < 2 ^ 53 * 2 powi e" by (rule assms(4))
next
  fix e' :: int
  assume "e' < e"
  then have "(2::real) powi e' \<le> 2 powi (e - 1)"
    by (intro power_int_increasing) auto
  then have "(2::real) ^ 53 * 2 powi e' \<le> 2 ^ 53 * 2 powi (e - 1)" by simp
  also have "\<dots> \<le> \<bar>x\<bar>" using assms(3) by (simp only: two_powi_step)
  finally show "\<not> \<bar>x\<bar> < 2 ^ 53 * 2 powi e'" by simp
qed

lemma ulp_exp_subnormal: "\<bar>x\<bar> < 2 ^ 53 * 2 powi (- 1074) \<Longrightarrow> ulp_exp x = - 1074"
  unfolding ulp_exp_def by (rule ulp_search_eqI) auto

lemma ulp_exp_le:
  assumes "- 1074 \<le> a" "\<bar>x\<bar> < 2 ^ 53 * 2 powi a"
  shows "ulp_exp x \<le> a"
proof (rule ccontr)
  assume "\<not> ulp_exp x \<le> a"
  then have "a < ulp_exp x" by simp
  then have "\<not> \<bar>x\<bar> < 2 ^ 53 * 2 powi a"
    using ulp_search_passed [of "- 1074" a 2045 "\<bar>x\<bar>"] assms(1) by (simp add: ulp_exp_def)
  then show False using assms(2) by simp
qed

lemma ulp_exp_mono:
  assumes "\<bar>x\<bar> \<le> \<bar>y\<bar>"
  shows "ulp_exp x \<le> ulp_exp y"
proof (cases "ulp_exp y < 971")
  case True
  then have "\<bar>x\<bar> < 2 ^ 53 * 2 powi (ulp_exp y)"
    using ulp_exp_upper [of y] assms by simp
  then show ?thesis using ulp_exp_range [of y] by (intro ulp_exp_le) auto
next
  case False
  then show ?thesis using ulp_exp_range [of x] by simp
qed



lemma round_half_even_error: "\<bar>of_int (round_half_even y) - y\<bar> \<le> 1 / 2"
proof -
  have "of_int \<lfloor>y\<rfloor> \<le> y" "y < of_int \<lfloor>y\<rfloor> + 1" by linarith+
  then show ?thesis by (auto simp: round_half_even_def Let_def)
qed

lemma round_half_even_of_int [simp]: "round_half_even (of_int k) = k"
  by (simp add: round_half_even_def)

lemma rnd_zero [simp]: "rnd 0 = 0"
  by (simp add: rnd_def round_half_even_def)

lemma rnd_error: "\<bar>rnd x - x\<bar> \<le> 2 powi (ulp_exp x) / 2"
proof -
  define e where "e = ulp_exp x"
  have p: "(0::real) < 2 powi e" by simp
  have "rnd x - x = (of_int (round_half_even (x / 2 powi e)) - x / 2 powi e) * 2 powi e"
    using p by (simp add: rnd_def e_def Let_def field_simps)
  then have "\<bar>rnd x - x\<bar> = \<bar>of_int (round_half_even (x / 2 powi e)) - x / 2 powi e\<bar> * 2 powi e"
    by (simp add: abs_mult)
  also have "\<dots> \<le> 1 / 2 * 2 powi e"
    using round_half_even_error [of "x / 2 powi e"] p by (intro mult_right_mono) auto
  finally show ?thesis by (simp add: e_def)
qed

lemma rnd_eqI:
  assumes "- 1074 < e" "e \<le> 971" "2 ^ 52 * 2 powi e \<le> \<bar>x\<bar>" "\<bar>x\<bar> < 2 ^ 53 * 2 powi e"
  shows "rnd x = of_int (round_half_even (x / 2 powi e)) * 2 powi e"
  using ulp_exp_eqI [OF assms] by (simp add: rnd_def)

lemma rnd_grid:
  assumes "x = of_int m * 2 powi a" "ulp_exp x \<le> a"
  shows "rnd x = x"
proof -
  define e where "e = ulp_exp x"
  have "x / 2 powi e = of_int m * 2 powi (a - e)"
    using assms(1) by (simp add: power_int_diff)
  also have "\<dots> = of_int (m * 2 ^ nat (a - e))"
    using assms(2) by (simp add: e_def power_int_nonneg_exp)
  finally have "round_half_even (x / 2 powi e) = m * 2 ^ nat (a - e)"
    by (simp only: round_half_even_of_int)
  then have "rnd x = of_int (m * 2 ^ nat (a - e)) * 2 powi e"
    by (simp add: rnd_def e_def Let_def)
  also have "\<dots> = of_int m * 2 powi (a - e) * 2 powi e"
    using assms(2) by (simp add: e_def power_int_nonneg_exp)
  also have "\<dots> = x" using assms(1) by (simp add: power_int_diff)
  finally show ?thesis .
qed

lemma rnd_exact:
  assumes "x = of_int m * 2 powi a" "\<bar>m\<bar> < 2 ^ 53" "- 1074 \<le> a"
  shows "rnd x = x"
proof -
  have "\<bar>x\<bar> = of_int \<bar>m\<bar> * 2 powi a" using assms(1) by (simp add: abs_mult)
  also have "\<dots> < 2 ^ 53 * 2 powi a"
  proof -
    have "(of_int \<bar>m\<bar> :: real) < of_int (2 ^ 53)" using assms(2) by (simp only: of_int_less_iff)
    then show ?thesis by simp
  qed
  finally have "ulp_exp x \<le> a" using assms(3) by (intro ulp_exp_le) auto
  then show ?thesis by (rule rnd_grid [OF assms(1)])
qed

lemma rnd_of_int: "\<bar>m\<bar> < 2 ^ 53 \<Longrightarrow> rnd (of_int m) = of_int m"
  using rnd_exact [of "of_int m" m 0] by simp

lemma rnd_on_grid: "\<exists>m. rnd x = of_int m * 2 powi (- 1074)"
proof -
  define e where "e = ulp_exp x"
  have e: "- 1074 \<le> e" using ulp_exp_range [of x] by (simp add: e_def)
  have "(2::real) powi e = 2 powi (e + 1074 + - 1074)" by simp
  also have "\<dots> = 2 powi (e + 1074) * 2 powi (- 1074)"
    by (rule power_int_add) simp
  also have "\<dots> = of_int (2 ^ nat (e + 1074)) * 2 powi (- 1074)"
    using e by (simp add: power_int_nonneg_exp)
  finally have "(2::real) powi e = of_int (2 ^ nat (e + 1074)) * 2 powi (- 1074)" .
  then have "rnd x = of_int (round_half_even (x / 2 powi e)) * (of_int (2 ^ nat (e + 1074)) * 2 powi (- 1074))"
    by (simp only: rnd_def e_def Let_def)
  then have "rnd x = of_int (round_half_even (x / 2 powi e) * 2 ^ nat (e + 1074)) * 2 powi (- 1074)"
    by (simp only: of_int_mult mult.assoc)
  then show ?thesis by blast
qed


subsection \<open>Facts about floor division and decimal text\<close>

text \<open>
  For a dividend from 0 up to \<open>2 ^ 53\<close> and a positive whole divisor the float
  quotient and remainder are the exact ones: the remainder is not negative, so nothing
  is adjusted, and the difference and its quotient are whole numbers below \<open>2 ^ 53\<close>.
\<close>

lemma c_fmod_pos:
  assumes "0 \<le> x" "0 < b"
  shows "c_fmod x (of_int b) = x - of_int (b * (\<lfloor>x\<rfloor> div b))"
proof -
  have "0 \<le> x / of_int b" using assms by simp
  then have "py_int (x / of_int b) = \<lfloor>x / of_int b\<rfloor>" by (simp add: py_int_def)
  also have "\<dots> = \<lfloor>x\<rfloor> div b" using assms(2) by (simp add: floor_divide_real_eq_div)
  finally show ?thesis by (simp add: c_fmod_def)
qed

lemma c_fmod_nonneg:
  assumes "0 \<le> x" "0 < b"
  shows "0 \<le> c_fmod x (of_int b)"
proof -
  have "b * (\<lfloor>x\<rfloor> div b) \<le> \<lfloor>x\<rfloor>"
    using mult_div_mod_eq [of b "\<lfloor>x\<rfloor>"] pos_mod_sign [OF assms(2), of "\<lfloor>x\<rfloor>"] by linarith
  then have "of_int (b * (\<lfloor>x\<rfloor> div b)) \<le> (of_int \<lfloor>x\<rfloor> :: real)" by (simp only: of_int_le_iff)
  also have "\<dots> \<le> x" by simp
  finally show ?thesis using c_fmod_pos [OF assms] by simp
qed

lemma fmod_pos:
  assumes "0 \<le> x" "0 < b"
  shows "fmod x (of_int b) = x - of_int (b * (\<lfloor>x\<rfloor> div b))"
  using c_fmod_nonneg [OF assms] c_fmod_pos [OF assms] assms(2)
  by (simp add: fmod_def Let_def)

lemma floor_fmod:
  assumes "0 \<le> x" "0 < b"
  shows "\<lfloor>fmod x (of_int b)\<rfloor> = \<lfloor>x\<rfloor> mod b"
proof -
  have "\<lfloor>fmod x (of_int b)\<rfloor> = \<lfloor>x\<rfloor> - b * (\<lfloor>x\<rfloor> div b)"
    by (simp only: fmod_pos [OF assms] floor_diff_of_int)
  then show ?thesis by (simp add: minus_mult_div_eq_mod)
qed

lemma fmod_nonneg: "0 \<le> x \<Longrightarrow> 0 < b \<Longrightarrow> 0 \<le> fmod x (of_int b)"
  using c_fmod_nonneg [of x b] c_fmod_pos [of x b] fmod_pos [of x b] by simp

lemma fmod_less:
  assumes "0 \<le> x" "0 < b"
  shows "fmod x (of_int b) < of_int b"
proof -
  have "\<lfloor>fmod x (of_int b)\<rfloor> < b"
    using floor_fmod [OF assms] assms(2) by simp
  then show ?thesis by (simp add: floor_less_iff)
qed

lemma ffloordiv_small:
  assumes "0 \<le> x" "x < 2 ^ 53" "0 < b"
  shows "ffloordiv x (of_int b) = of_int (\<lfloor>x\<rfloor> div b)"
proof -
  define q where "q = \<lfloor>x\<rfloor> div b"
  have fl: "0 \<le> \<lfloor>x\<rfloor>" "\<lfloor>x\<rfloor> < 2 ^ 53" using assms(1,2) by (simp_all add: floor_less_iff)
  have q0: "0 \<le> q" using fl(1) assms(3) by (simp add: q_def pos_imp_zdiv_nonneg_iff)
  have bq: "b * q \<le> \<lfloor>x\<rfloor>"
    using mult_div_mod_eq [of b "\<lfloor>x\<rfloor>"] pos_mod_sign [OF assms(3), of "\<lfloor>x\<rfloor>"]
    unfolding q_def by linarith
  have qle: "q \<le> b * q" using q0 assms(3) by (simp add: mult_le_cancel_right1)
  have m: "c_fmod x (of_int b) = x - of_int (b * q)"
    using c_fmod_pos [OF assms(1,3)] by (simp add: q_def)
  have mn: "\<not> c_fmod x (of_int b) < 0" using c_fmod_nonneg [OF assms(1,3)] by simp
  have bq0: "0 \<le> b * q" using q0 assms(3) by simp
  have "\<bar>b * q\<bar> < 2 ^ 53" using bq fl(2) bq0 by linarith
  then have r1: "rnd (of_int (b * q)) = of_int (b * q)" by (rule rnd_of_int)
  have "\<bar>q\<bar> < 2 ^ 53" using qle bq fl(2) q0 by linarith
  then have r2: "rnd (of_int q) = of_int q" by (rule rnd_of_int)
  have d: "rnd (x - c_fmod x (of_int b)) / of_int b = of_int q"
    using r1 assms(3) by (simp add: m)
  show ?thesis
    unfolding ffloordiv_def Let_def d r2 q_def [symmetric]
    using mn assms(3) by simp
qed

lemma ffloordiv_nonneg:
  "0 \<le> x \<Longrightarrow> x < 2 ^ 53 \<Longrightarrow> 0 < b \<Longrightarrow> 0 \<le> ffloordiv x (of_int b)"
  by (simp add: ffloordiv_small pos_imp_zdiv_nonneg_iff)

lemma str_nat_small: "n < 10 \<Longrightarrow> str_nat n = [digit_char n]"
  by (subst str_nat.simps) simp

lemma str_nat_two_digits:
  "10 \<le> n \<Longrightarrow> n < 100 \<Longrightarrow> str_nat n = [digit_char (n div 10), digit_char (n mod 10)]"
proof -
  assume a: "10 \<le> n" "n < 100"
  then have "n div 10 < 10" by simp
  then have "str_nat (n div 10) = [digit_char (n div 10)]" by (rule str_nat_small)
  moreover have "str_nat n = str_nat (n div 10) @ [digit_char (n mod 10)]"
    using a by (subst str_nat.simps) simp
  ultimately show ?thesis by simp
qed

lemma str_nat_unfold: "10 \<le> n \<Longrightarrow> str_nat n = str_nat (n div 10) @ [digit_char (n mod 10)]"
  by (subst str_nat.simps) simp

lemma fmt_02d_two:
  assumes "n < 100"
  shows "fmt_02d (int n) = [digit_char (n div 10), digit_char (n mod 10)]"
proof (cases "n < 10")
  case True
  then show ?thesis
    by (simp add: fmt_02d_def str_int_def str_nat_small digit_char_def)
next
  case False
  then show ?thesis using assms
    by (simp add: fmt_02d_def str_int_def str_nat_two_digits)
qed

lemma format_duration_600: "format_duration 600 = ''10:00''"
proof -
  have a: "ffloordiv 600 3600 = 0" using ffloordiv_small [of 600 3600] by simp
  have b: "fmod 600 3600 = 600" using fmod_pos [of 600 3600] by simp
  have c: "ffloordiv 600 60 = 10" using ffloordiv_small [of 600 60] by simp
  have d: "fmod 600 60 = 0" using fmod_pos [of 600 60] by simp
  show ?thesis
    by (simp add: format_duration_def a b c d py_int_def str_int_def fmt_02d_def
        str_nat_small str_nat_two_digits digit_char_def)
qed

lemma c_fmod_1e22: "c_fmod (10 ^ 22) 3600 = 2800"
  by (simp add: c_fmod_def py_int_def)

lemma rnd_1e22_diff: "rnd (10 ^ 22 - 2800) = 10 ^ 22"
  by (subst rnd_eqI [where e = 21]) (simp_all add: round_half_even_def)

lemma rnd_1e22_quot: "rnd (10 ^ 22 / 3600) = 2777777777777777664"
  by (subst rnd_eqI [where e = 9]) (simp_all add: round_half_even_def)

subsection \<open>Split planning rejects a bad part count\<close>

text \<open>
  Claim C5.  For every duration, \<open>calculate_split_times\<close> called with fewer than 2 or
  more than 20 parts raises \<open>ValueError\<close> (the service's invalid-input error) and
  returns no plan.
\<close>

theorem calculate_split_times_bad_parts:
  "num_parts < 2 \<or> 20 < num_parts \<Longrightarrow>
     calculate_split_times duration num_parts =
       Inl (ValueError (if num_parts < 2 then ''Number of parts must be at least 2''
                        else ''Number of parts cannot exceed 20''))"
  by (auto simp: calculate_split_times_def)

theorem calculate_split_times_bad_parts_witness:
  "calculate_split_times 600 1 = Inl (ValueError ''Number of parts must be at least 2'')
   \<and> calculate_split_times 600 21 = Inl (ValueError ''Number of parts cannot exceed 20'')"
  using calculate_split_times_bad_parts [of 1 600] calculate_split_times_bad_parts [of 21 600]
  by simp

subsection \<open>Duration formatting truncates\<close>

text \<open>
  At \<open>10 ^ 22\<close> seconds the hours are not the truncated quotient: the float quotient
  of the floor division is rounded to 53 bits, and the text shows 2777777777777777664
  hours where integer division of the whole seconds gives 2777777777777777777.
\<close>

theorem format_duration_large_counterexample:
  "format_duration (10 ^ 22) = ''2777777777777777664:46:40''
   \<and> (let t = nat \<lfloor>(10::real) ^ 22\<rfloor> in (t div 3600, t mod 3600 div 60, t mod 60))
       = (2777777777777777777, 46, 40)"
proof -
  have h: "ffloordiv (10 ^ 22) 3600 = 2777777777777777664"
    unfolding ffloordiv_def Let_def c_fmod_1e22 rnd_1e22_diff rnd_1e22_quot by simp
  have m: "fmod (10 ^ 22) 3600 = 2800"
    unfolding fmod_def Let_def c_fmod_1e22 by simp
  have mm: "ffloordiv 2800 60 = 46" using ffloordiv_small [of 2800 60] by simp
  have s: "fmod (10 ^ 22) 60 = 40"
    by (simp add: fmod_def Let_def c_fmod_def py_int_def)
  have hs: "str_nat 2777777777777777664 = ''2777777777777777664''"
    by (simp add: str_nat_unfold str_nat_small digit_char_def)
  have "format_duration (10 ^ 22) = ''2777777777777777664:46:40''"
    unfolding format_duration_def h m mm s
    by (simp add: py_int_def str_int_def fmt_02d_def hs str_nat_two_digits digit_char_def)
  moreover have "(let t = nat \<lfloor>(10::real) ^ 22\<rfloor> in (t div 3600, t mod 3600 div 60, t mod 60))
       = (2777777777777777777, 46, 40)"
    by simp
  ultimately show ?thesis by simp
qed

text \<open>
  Claim C7, amended.  For every number of seconds from 0 up to, not including,
  \<open>2 ^ 53\<close>, \<open>format_duration\<close> renders the whole seconds \<open>t\<close> (the fraction is cut off,
  not rounded) as hours, minutes and seconds obtained by integer division: \<open>H:MM:SS\<close>
  when the hours are positive and \<open>M:SS\<close> otherwise, where \<open>MM\<close> and \<open>SS\<close> are exactly
  two digits, padded with a zero.  125.4 gives \<open>2:05\<close> and 3725 gives \<open>1:02:05\<close>.
\<close>

theorem format_duration_truncates:
  assumes "0 \<le> seconds" "seconds < 2 ^ 53"
  shows "format_duration seconds =
     (let t = nat \<lfloor>seconds\<rfloor>; h = t div 3600; m = t mod 3600 div 60; s = t mod 60
      in if 0 < h
         then str_nat h @ '':'' @ [digit_char (m div 10), digit_char (m mod 10)] @ '':''
                @ [digit_char (s div 10), digit_char (s mod 10)]
         else str_nat m @ '':'' @ [digit_char (s div 10), digit_char (s mod 10)])"
proof -
  define t where "t = nat \<lfloor>seconds\<rfloor>"
  have t: "\<lfloor>seconds\<rfloor> = int t" using assms by (simp add: t_def)
  have hours: "py_int (ffloordiv seconds 3600) = int (t div 3600)"
    using ffloordiv_small [OF assms, of 3600] by (simp add: py_int_def t zdiv_int)
  have r0: "0 \<le> fmod seconds 3600" using fmod_nonneg [OF assms(1), of 3600] by simp
  have r1: "fmod seconds 3600 < 2 ^ 53" using fmod_less [OF assms(1), of 3600] by simp
  have rem: "\<lfloor>fmod seconds 3600\<rfloor> = int (t mod 3600)"
    using floor_fmod [OF assms(1), of 3600] by (simp add: t zmod_int)
  have minutes: "py_int (ffloordiv (fmod seconds 3600) 60) = int (t mod 3600 div 60)"
    using ffloordiv_small [OF r0 r1, of 60] by (simp add: py_int_def rem zdiv_int)
  have secs: "py_int (fmod seconds 60) = int (t mod 60)"
  proof -
    have "0 \<le> fmod seconds 60" using fmod_nonneg [OF assms(1), of 60] by simp
    moreover have "\<lfloor>fmod seconds 60\<rfloor> = \<lfloor>seconds\<rfloor> mod 60"
      using floor_fmod [OF assms(1), of 60] by simp
    ultimately show ?thesis by (simp add: py_int_def t zmod_int)
  qed
  have m: "t mod 3600 div 60 < 100" by (simp add: less_mult_imp_div_less)
  have s: "t mod 60 < 100" using mod_less_divisor [of 60 t] by linarith
  show ?thesis
    unfolding format_duration_def Let_def hours minutes secs t_def [symmetric]
    by (simp add: fmt_02d_two [OF m] fmt_02d_two [OF s] str_int_def)
qed

theorem format_duration_truncates_witness:
  "(0::real) \<le> 1254 / 10 \<and> (1254 / 10 :: real) < 2 ^ 53
   \<and> format_duration (1254 / 10) = ''2:05''
   \<and> (0::real) \<le> 3725 \<and> (3725::real) < 2 ^ 53 \<and> format_duration 3725 = ''1:02:05''"
  using format_duration_truncates [of "1254 / 10"] format_duration_truncates [of 3725]
  by (simp add: digit_char_def str_nat_small)

subsection \<open>Facts about the split loop\<close>

lemma digit_char_inj: "a < 10 \<Longrightarrow> b < 10 \<Longrightarrow> digit_char a = digit_char b \<Longrightarrow> a = b"
proof -
  assume a: "a < 10" and b: "b < 10" and eq: "digit_char a = digit_char b"
  have d: "distinct ''0123456789''" by simp
  have "a < length ''0123456789''" "b < length ''0123456789''" using a b by simp_all
  then show "a = b" using eq d unfolding digit_char_def by (simp only: nth_eq_iff_index_eq)
qed

lemma str_nat_nonempty: "str_nat n \<noteq> []"
  by (subst str_nat.simps) simp

lemma str_nat_inj: "str_nat m = str_nat n \<Longrightarrow> m = n"
proof (induction m arbitrary: n rule: str_nat.induct)
  case (1 m)
  show ?case
  proof (cases "m < 10")
    case True
    have "n < 10"
    proof (rule ccontr)
      assume "\<not> n < 10"
      then have "str_nat n = str_nat (n div 10) @ [digit_char (n mod 10)]"
        by (simp add: str_nat_unfold)
      then have "str_nat (n div 10) = []" using "1.prems" True by (simp add: str_nat_small)
      then show False by (simp add: str_nat_nonempty)
    qed
    then show ?thesis using "1.prems" True digit_char_inj by (simp add: str_nat_small)
  next
    case False
    then have m: "str_nat m = str_nat (m div 10) @ [digit_char (m mod 10)]"
      by (simp add: str_nat_unfold)
    have n10: "\<not> n < 10"
    proof
      assume "n < 10"
      then have "str_nat (m div 10) = []" using "1.prems" m by (simp add: str_nat_small)
      then show False by (simp add: str_nat_nonempty)
    qed
    then have n: "str_nat n = str_nat (n div 10) @ [digit_char (n mod 10)]"
      by (simp add: str_nat_unfold)
    from "1.prems" m n have eq: "str_nat (m div 10) = str_nat (n div 10)"
      and dg: "digit_char (m mod 10) = digit_char (n mod 10)" by simp_all
    have "m div 10 = n div 10" using "1.IH" [OF False eq] .
    moreover have "m mod 10 = n mod 10" using dg digit_char_inj [of "m mod 10" "n mod 10"] by simp
    ultimately show ?thesis by (metis div_mult_mod_eq)
  qed
qed

text \<open>
  The file name of a part holds no slash and is neither empty nor a dot, so joining it
  to the output directory appends it as one component; different part numbers give
  different paths.
\<close>

lemma split_on_no_sep: "s \<in> set (split_on c xs) \<Longrightarrow> c \<notin> set s"
proof (induction xs arbitrary: s)
  case Nil
  then show ?case by simp
next
  case (Cons x xs)
  show ?case
  proof (cases "x = c")
    case True
    then show ?thesis using Cons by auto
  next
    case False
    then show ?thesis using Cons by (cases "split_on c xs") auto
  qed
qed

lemma split_on_single: "c \<notin> set xs \<Longrightarrow> split_on c xs = [xs]"
  by (induction xs) auto

lemma path_name_no_slash: "CHR ''/'' \<notin> set (path_name p)"
proof (cases "path_parts p")
  case Nil
  then show ?thesis by (simp add: path_name_def)
next
  case (Cons q qs)
  then have "last (q # qs) \<in> set (split_on CHR ''/'' p)"
    using last_in_set [of "q # qs"] unfolding path_parts_def
    by (metis filter_is_subset list.distinct(1) subsetD)
  then show ?thesis using Cons by (simp add: path_name_def split_on_no_sep del: last.simps)
qed

lemma path_stem_no_slash: "CHR ''/'' \<notin> set (path_stem p)"
  using path_name_no_slash [of p]
  by (auto simp: path_stem_def Let_def dest: in_set_takeD)

lemma path_suffix_no_slash: "CHR ''/'' \<notin> set (path_suffix p)"
  using path_name_no_slash [of p]
  by (auto simp: path_suffix_def Let_def dest: set_takeWhileD)

lemma str_nat_digits: "set (str_nat n) \<subseteq> set ''0123456789''"
proof (induction n rule: str_nat.induct)
  case (1 n)
  have d: "digit_char (n mod 10) \<in> set ''0123456789''"
    unfolding digit_char_def by (rule nth_mem) simp
  show ?case
  proof (cases "n < 10")
    case True
    then show ?thesis using d by (simp add: str_nat_small)
  next
    case False
    then show ?thesis using d 1 by (simp add: str_nat_unfold)
  qed
qed

lemma str_nat_no_slash: "CHR ''/'' \<notin> set (str_nat n)"
  using str_nat_digits [of n] by auto

lemma join_slash_snoc: "join_slash (ps @ [f]) = concat (map (\<lambda>p. p @ ''/'') ps) @ f"
  by (induction ps rule: join_slash.induct) simp_all

lemma path_join_filename:
  assumes "CHR ''/'' \<notin> set f" "f \<noteq> []" "f \<noteq> ''.''"
  shows "path_join d f =
           path_root d @ concat (map (\<lambda>p. p @ ''/'') (path_parts d)) @ f"
proof -
  have r: "path_root f = []"
    using assms(1,2) by (cases f) (auto simp: path_root_def)
  have p: "path_parts f = [f]"
    using assms by (simp add: path_parts_def split_on_single)
  show ?thesis by (simp add: path_join_def r p path_str_def join_slash_snoc)
qed

lemma part_path_eq:
  "part_path v d i =
     path_root d @ concat (map (\<lambda>p. p @ ''/'') (path_parts d))
       @ path_stem v @ ''_part'' @ str_nat i @ path_suffix v"
proof -
  let ?f = "path_stem v @ ''_part'' @ str_nat i @ path_suffix v"
  have "CHR ''/'' \<notin> set ?f"
    using path_stem_no_slash [of v] path_suffix_no_slash [of v] str_nat_no_slash [of i] by simp
  moreover have "?f \<noteq> []" by simp
  moreover have "?f \<noteq> ''.''"
  proof
    assume "?f = ''.''"
    then have "length ?f = 1" by simp
    then show False by simp
  qed
  ultimately show ?thesis
    unfolding part_path_def str_int_def using path_join_filename [of ?f d] by simp
qed

lemma part_path_inj: "part_path v d i = part_path v d j \<Longrightarrow> i = j"
  by (auto simp: part_path_eq dest: str_nat_inj)

text \<open>Paths as \<open>pathlib\<close> prints them.\<close>

lemma path_examples:
  "path_join ''.'' ''movie_part1.mp4'' = ''movie_part1.mp4''"
  "path_join ''/'' ''movie_part1.mp4'' = ''/movie_part1.mp4''"
  "path_join ''outputs'' ''movie_part1.mp4'' = ''outputs/movie_part1.mp4''"
  "path_join ''a//b/./c/'' ''x'' = ''a/b/c/x''"
  "path_join ''//a'' ''b'' = ''//a/b''"
  "path_join ''///a'' ''b'' = ''/a/b''"
  "path_join ''a'' ''/b'' = ''/b''"
  "path_join ''a'' [] = ''a''"
  "path_name ''.'' = []"
  "path_name ''/tmp/in/movie.mp4'' = ''movie.mp4''"
  "path_stem ''/tmp/in/movie.mp4'' = ''movie''"
  "path_suffix ''/tmp/in/movie.mp4'' = ''.mp4''"
  "path_suffix ''.bashrc'' = []"
  "path_suffix ''a.'' = []"
  "path_stem ''a.b.c'' = ''a.b''"
  by (simp_all add: path_join_def path_root_def path_parts_def path_str_def path_name_def
      path_stem_def path_suffix_def has_suffix_def)


lemma files_unlink [simp]: "files (unlink p w) = (files w)(p := None)"
  by (simp add: unlink_def)

lemma calls_unlink [simp]: "calls (unlink p w) = calls w"
  by (simp add: unlink_def)

lemma files_fold_unlink: "files (fold unlink ps w) q = (if q \<in> set ps then None else files w q)"
  by (induction ps arbitrary: w) auto

lemma calls_fold_unlink [simp]: "calls (fold unlink ps w) = calls w"
  by (induction ps arbitrary: w) auto

lemma calls_subprocess_run [simp]: "calls (snd (subprocess_run env c w)) = calls w @ [c]"
  by (simp add: subprocess_run_def split: prod.splits)

lemma fst_subprocess_run [simp]: "fst (subprocess_run env c w) = fst (run env c)"
  by (simp add: subprocess_run_def split: prod.splits)

lemma files_subprocess_run:
  "files (snd (subprocess_run env c w)) =
     (case (snd (run env c), output_of c) of (Wrote n, Some p) \<Rightarrow> (files w)(p \<mapsto> n) | _ \<Rightarrow> files w)"
  by (simp add: subprocess_run_def split: prod.splits)

lemma stream_copy_result:
  "split_segment_stream_copy env v out s t w =
     (if tool_accepts env (StreamCopy v out s t) (files w out)
      then (True, snd (subprocess_run env (StreamCopy v out s t) w))
      else (False, unlink out (snd (subprocess_run env (StreamCopy v out s t) w))))"
  by (auto simp: split_segment_stream_copy_def tool_accepts_def subprocess_run_def
      exists_larger_def output_of_def
      split: prod.splits run_status.splits file_effect.splits option.splits)

lemma reencode_result:
  "split_segment_reencode env v out s t w =
     (if tool_accepts env (Reencode v out s t) (files w out)
      then (True, snd (subprocess_run env (Reencode v out s t) w))
      else (False, unlink out (snd (subprocess_run env (Reencode v out s t) w))))"
  by (auto simp: split_segment_reencode_def tool_accepts_def subprocess_run_def
      exists_larger_def output_of_def
      split: prod.splits run_status.splits file_effect.splits option.splits)

lemma files_run_other:
  "output_of c = Some out \<Longrightarrow> p \<noteq> out \<Longrightarrow> files (snd (subprocess_run env c w)) p = files w p"
  by (simp add: files_subprocess_run split: file_effect.splits)

lemma files_run_accepted:
  "output_of c = Some out \<Longrightarrow> tool_accepts env c (files w out)
     \<Longrightarrow> files (snd (subprocess_run env c w)) out \<noteq> None"
  by (auto simp: files_subprocess_run tool_accepts_def
      split: file_effect.splits prod.splits option.splits)

lemma split_parts_Cons:
  "split_parts env v d u ((i, s, e) # rest) acc w =
     (let out = part_path v d i;
          t = fsub e s;
          p = (if u then split_segment_stream_copy env v out s t w else (False, w))
      in if fst p then split_parts env v d u rest (acc @ [out]) (snd p)
         else
           let q = split_segment_reencode env v out s t (snd p)
           in if fst q then split_parts env v d u rest (acc @ [out]) (snd q)
              else (Inl (ValueError (''Failed to split video at part '' @ str_int (int i))),
                    fold unlink acc (snd q)))"
  by (simp add: Let_def split: prod.splits)

lemma calls_stream_copy:
  "calls (snd (split_segment_stream_copy env v out s t w)) = calls w @ [StreamCopy v out s t]"
  by (simp add: stream_copy_result)

lemma calls_reencode:
  "calls (snd (split_segment_reencode env v out s t w)) = calls w @ [Reencode v out s t]"
  by (simp add: reencode_result)

lemma split_parts_calls:
  "\<exists>cs. calls (snd (split_parts env v d u xs acc w)) = calls w @ cs"
proof (induction xs arbitrary: acc w)
  case Nil
  then show ?case by simp
next
  case (Cons x xs)
  obtain i s e where x: "x = (i, s, e)" by (cases x) auto
  define out where "out = part_path v d i"
  define t where "t = fsub e s"
  define p where "p = (if u then split_segment_stream_copy env v out s t w else (False, w))"
  define q where "q = split_segment_reencode env v out s t (snd p)"
  have cp: "\<exists>cs. calls (snd p) = calls w @ cs"
    by (simp add: p_def calls_stream_copy)
  have cq: "\<exists>cs. calls (snd q) = calls w @ cs"
    using cp by (auto simp: q_def calls_reencode)
  have eq: "split_parts env v d u (x # xs) acc w =
      (if fst p then split_parts env v d u xs (acc @ [out]) (snd p)
       else if fst q then split_parts env v d u xs (acc @ [out]) (snd q)
       else (Inl (ValueError (''Failed to split video at part '' @ str_int (int i))),
             fold unlink acc (snd q)))"
    unfolding x split_parts_Cons by (simp add: Let_def out_def t_def p_def q_def)
  show ?case
  proof (cases "fst p")
    case True
    obtain cs where "calls (snd (split_parts env v d u xs (acc @ [out]) (snd p))) = calls (snd p) @ cs"
      using Cons.IH by blast
    then show ?thesis using cp True eq by auto
  next
    case False
    show ?thesis
    proof (cases "fst q")
      case True
      obtain cs where "calls (snd (split_parts env v d u xs (acc @ [out]) (snd q))) = calls (snd q) @ cs"
        using Cons.IH by blast
      then show ?thesis using cq True False eq by auto
    next
      case f: False
      then show ?thesis using cq False eq by auto
    qed
  qed
qed

lemma part_fails_iff:
  "part_fails env v d w (i, s, e) =
     (\<not> tool_accepts env (StreamCopy v (part_path v d i) s (fsub e s)) (files w (part_path v d i))
      \<and> \<not> tool_accepts env (Reencode v (part_path v d i) s (fsub e s)) None)"
  by (auto simp: part_fails_def Let_def stream_copy_result reencode_result split: prod.splits)

lemma part_fails_cong:
  "files w (part_path v d (fst x)) = files u (part_path v d (fst x))
     \<Longrightarrow> part_fails env v d w x = part_fails env v d u x"
  by (cases x) (simp add: part_fails_iff)

text \<open>What one pass of the loop body does to the files when the part is produced.\<close>

lemma files_stream_copy_other:
  "p \<noteq> out \<Longrightarrow> files (snd (split_segment_stream_copy env v out s t w)) p = files w p"
  by (simp add: stream_copy_result files_run_other output_of_def)

lemma files_reencode_other:
  "p \<noteq> out \<Longrightarrow> files (snd (split_segment_reencode env v out s t w)) p = files w p"
  by (simp add: reencode_result files_run_other output_of_def)

lemma files_stream_copy_failed:
  "\<not> fst (split_segment_stream_copy env v out s t w)
     \<Longrightarrow> files (snd (split_segment_stream_copy env v out s t w)) out = None"
  by (simp add: stream_copy_result split: if_splits)

lemma files_reencode_failed:
  "\<not> fst (split_segment_reencode env v out s t w)
     \<Longrightarrow> files (snd (split_segment_reencode env v out s t w)) out = None"
  by (simp add: reencode_result split: if_splits)

lemma split_parts_first_failure:
  assumes "distinct (map fst xs)" "k < length xs"
    and "part_fails env v d w (xs ! k)"
    and "\<forall>j<k. \<not> part_fails env v d w (xs ! j)"
  shows "fst (split_parts env v d True xs acc w) =
           Inl (ValueError (''Failed to split video at part '' @ str_int (int (fst (xs ! k)))))
         \<and> (\<forall>p. files (snd (split_parts env v d True xs acc w)) p =
               (if p \<in> set acc \<union> part_path v d ` fst ` set (take (Suc k) xs) then None
                else files w p))"
  using assms
proof (induction xs arbitrary: acc w k)
  case Nil
  then show ?case by simp
next
  case (Cons x xs)
  obtain i s e where x: "x = (i, s, e)" by (cases x) auto
  define out where "out = part_path v d i"
  define t where "t = fsub e s"
  define p where "p = split_segment_stream_copy env v out s t w"
  define q where "q = split_segment_reencode env v out s t (snd p)"
  have eq: "split_parts env v d True (x # xs) acc w =
      (if fst p then split_parts env v d True xs (acc @ [out]) (snd p)
       else if fst q then split_parts env v d True xs (acc @ [out]) (snd q)
       else (Inl (ValueError (''Failed to split video at part '' @ str_int (int i))),
             fold unlink acc (snd q)))"
    unfolding x split_parts_Cons by (simp add: Let_def out_def t_def p_def q_def)
  have head_fails: "part_fails env v d w x = (\<not> fst p \<and> \<not> fst q)"
    by (simp add: x part_fails_def Let_def out_def t_def p_def q_def split: prod.splits)
  have p_other: "files (snd p) r = files w r" if "r \<noteq> out" for r
    using that by (simp add: p_def files_stream_copy_other)
  have q_other: "files (snd q) r = files w r" if "r \<noteq> out" for r
    using that by (simp add: q_def files_reencode_other p_other)
  show ?case
  proof (cases k)
    case 0
    then have f: "\<not> fst p" "\<not> fst q" using Cons.prems(3) head_fails by simp_all
    have "files (snd q) out = None" using f(2) by (simp add: q_def files_reencode_failed)
    then have "files (snd q) r = (if r = out then None else files w r)" for r
      using q_other by simp
    then show ?thesis using f eq 0 by (simp add: files_fold_unlink x out_def)
  next
    case (Suc k')
    have ok: "fst p \<or> fst q" using Cons.prems(4) Suc head_fails by auto
    define wn where "wn = (if fst p then snd p else snd q)"
    have next_eq: "split_parts env v d True (x # xs) acc w =
        split_parts env v d True xs (acc @ [out]) wn"
      using ok eq by (auto simp: wn_def)
    have wn_other: "files wn r = files w r" if "r \<noteq> out" for r
      using that p_other q_other by (simp add: wn_def)
    have notin: "i \<notin> fst ` set xs" using Cons.prems(1) by (simp add: x)
    have same: "part_fails env v d wn y = part_fails env v d w y" if "y \<in> set xs" for y
    proof (rule part_fails_cong)
      have "fst y \<noteq> i" using that notin by auto
      then have "part_path v d (fst y) \<noteq> out" using part_path_inj by (auto simp: out_def)
      then show "files wn (part_path v d (fst y)) = files w (part_path v d (fst y))"
        by (rule wn_other)
    qed
    have k': "k' < length xs" using Cons.prems(2) Suc by simp
    have d: "distinct (map fst xs)" using Cons.prems(1) by simp
    have fails: "part_fails env v d wn (xs ! k')"
      using Cons.prems(3) Suc k' same by simp
    have before: "\<forall>j<k'. \<not> part_fails env v d wn (xs ! j)"
    proof (intro allI impI)
      fix j assume j: "j < k'"
      then have "\<not> part_fails env v d w ((x # xs) ! Suc j)" using Cons.prems(4) Suc by auto
      then show "\<not> part_fails env v d wn (xs ! j)" using same j k' by simp
    qed
    have IH: "fst (split_parts env v d True xs (acc @ [out]) wn) =
           Inl (ValueError (''Failed to split video at part '' @ str_int (int (fst (xs ! k')))))
         \<and> (\<forall>r. files (snd (split_parts env v d True xs (acc @ [out]) wn)) r =
               (if r \<in> set (acc @ [out]) \<union> part_path v d ` fst ` set (take (Suc k') xs) then None
                else files wn r))"
      by (rule Cons.IH [OF d k' fails before])
    show ?thesis
      unfolding next_eq using IH Suc wn_other by (auto simp: x out_def)
  qed
qed

lemma enumerate1_nth: "k < length xs \<Longrightarrow> enumerate1 xs ! k = (Suc k, xs ! k)"
  by (simp add: enumerate1_def del: upt_Suc)

lemma enumerate1_fst: "map fst (enumerate1 xs) = [1..<Suc (length xs)]"
  by (simp add: enumerate1_def del: upt_Suc)

lemma enumerate1_take_paths:
  "k < length xs \<Longrightarrow> fst ` set (take (Suc k) (enumerate1 xs)) = {1..Suc k}"
proof -
  assume k: "k < length xs"
  have "map fst (take (Suc k) (enumerate1 xs)) = take (Suc k) [1..<Suc (length xs)]"
    by (simp add: take_map [symmetric] enumerate1_fst)
  also have "\<dots> = [1..<1 + Suc k]" using k by (intro take_upt) simp
  finally have "set (map fst (take (Suc k) (enumerate1 xs))) = set [1..<1 + Suc k]" by simp
  then show ?thesis by (simp only: set_map set_upt) auto
qed

lemma files_run_no_output:
  "output_of c = None \<Longrightarrow> files (snd (subprocess_run env c w)) = files w"
  by (simp add: files_subprocess_run split: file_effect.splits)

lemma files_check_ffmpeg [simp]: "files (snd (check_ffmpeg_installed env w)) = files w"
  using files_run_no_output [of FfmpegVersion env w]
  by (auto simp: check_ffmpeg_installed_def output_of_def split: prod.splits)

lemma files_get_video_duration [simp]: "files (snd (get_video_duration env v w)) = files w"
  using files_run_no_output [of "ProbeDuration v" env w]
  by (auto simp: get_video_duration_def output_of_def split: prod.splits)

lemma fst_check_ffmpeg: "fst (check_ffmpeg_installed env w) = fst (check_ffmpeg_installed env u)"
  by (simp add: check_ffmpeg_installed_def subprocess_run_def split: prod.splits)

lemma fst_get_video_duration:
  "fst (get_video_duration env v w) = fst (get_video_duration env v u)"
  by (simp add: get_video_duration_def subprocess_run_def split: prod.splits)

lemma plan_600_5:
  "calculate_split_times 600 5 = Inr [(0, 120), (120, 240), (240, 360), (360, 480), (480, 600)]"
proof -
  have "[0..<nat 5] = [0, 1, 2, 3, 4]" by (simp add: upt_rec)
  moreover have "rnd 120 = 120" "rnd 240 = 240" "rnd 360 = 360" "rnd 480 = 480" "rnd 600 = 600"
    using rnd_of_int [of 120] rnd_of_int [of 240] rnd_of_int [of 360] rnd_of_int [of 480]
      rnd_of_int [of 600] by simp_all
  ultimately show ?thesis
    by (simp add: calculate_split_times_def fdiv_def fmul_def)
qed

subsection \<open>Stream copy is accepted only when plausible, else the part is re-encoded\<close>

text \<open>
  Claim C3.  The stream copy of a range is accepted exactly when the run exited with
  return code 0 and the output file exists with more than 1000 bytes; an accepted part
  goes to the output list and the loop moves on.  In every other case the output of the
  stream copy is removed, and the next command the loop runs is the re-encode of the same
  range into the same output path.  A stream copy that exits with 0 and leaves 500 bytes
  is such a case.
\<close>

theorem stream_copy_fallback:
  "let out = part_path v d i;
       t = fsub e s;
       accepted = tool_accepts env (StreamCopy v out s t) (files w out);
       w1 = snd (subprocess_run env (StreamCopy v out s t) w)
   in fst (split_segment_stream_copy env v out s t w) = accepted
      \<and> (accepted \<longrightarrow>
           split_parts env v d True ((i, s, e) # rest) acc w =
             split_parts env v d True rest (acc @ [out]) w1)
      \<and> (\<not> accepted \<longrightarrow>
           files (snd (split_segment_stream_copy env v out s t w)) out = None
           \<and> (\<exists>cs. calls (snd (split_parts env v d True ((i, s, e) # rest) acc w)) =
                 calls w @ [StreamCopy v out s t, Reencode v out s t] @ cs))"
proof -
  define out where "out = part_path v d i"
  define t where "t = fsub e s"
  define w1 where "w1 = snd (subprocess_run env (StreamCopy v out s t) w)"
  define accepted where "accepted = tool_accepts env (StreamCopy v out s t) (files w out)"
  have sc: "split_segment_stream_copy env v out s t w =
      (if accepted then (True, w1) else (False, unlink out w1))"
    by (simp add: stream_copy_result accepted_def w1_def)
  have a: "fst (split_segment_stream_copy env v out s t w) = accepted"
    by (simp add: sc)
  have b: "split_parts env v d True ((i, s, e) # rest) acc w =
      split_parts env v d True rest (acc @ [out]) w1" if accepted
    using that unfolding split_parts_Cons
    by (simp add: Let_def out_def [symmetric] t_def [symmetric] sc)
  have c: "files (snd (split_segment_stream_copy env v out s t w)) out = None" if "\<not> accepted"
    using that by (simp add: sc)
  have d: "\<exists>cs. calls (snd (split_parts env v d True ((i, s, e) # rest) acc w)) =
      calls w @ [StreamCopy v out s t, Reencode v out s t] @ cs" if na: "\<not> accepted"
  proof -
    define q where "q = split_segment_reencode env v out s t (unlink out w1)"
    have cq: "calls (snd q) = calls w @ [StreamCopy v out s t, Reencode v out s t]"
      by (simp add: q_def calls_reencode w1_def)
    have eq: "split_parts env v d True ((i, s, e) # rest) acc w =
        (if fst q then split_parts env v d True rest (acc @ [out]) (snd q)
         else (Inl (ValueError (''Failed to split video at part '' @ str_int (int i))),
               fold unlink acc (snd q)))"
      using na unfolding split_parts_Cons
      by (simp add: Let_def out_def [symmetric] t_def [symmetric] sc q_def)
    show ?thesis
    proof (cases "fst q")
      case True
      obtain cs where "calls (snd (split_parts env v d True rest (acc @ [out]) (snd q))) =
          calls (snd q) @ cs"
        using split_parts_calls by blast
      then show ?thesis using True eq cq by simp
    next
      case False
      then show ?thesis using eq cq by simp
    qed
  qed
  show ?thesis
    unfolding Let_def out_def [symmetric] t_def [symmetric] w1_def [symmetric]
      accepted_def [symmetric]
    using a b c d by blast
qed

theorem stream_copy_fallback_witness:
  "\<not> tool_accepts split_demo_env
       (StreamCopy ''movie.mp4'' (part_path ''movie.mp4'' ''out'' 3) 240 120) None
   \<and> \<not> fst (split_segment_stream_copy split_demo_env ''movie.mp4''
             (part_path ''movie.mp4'' ''out'' 3) 240 120 empty_world)
   \<and> files (snd (split_segment_stream_copy split_demo_env ''movie.mp4''
             (part_path ''movie.mp4'' ''out'' 3) 240 120 empty_world))
        (part_path ''movie.mp4'' ''out'' 3) = None
   \<and> (\<exists>cs. calls (snd (split_parts split_demo_env ''movie.mp4'' ''out'' True [(3, 240, 360)] []
                empty_world)) =
        [StreamCopy ''movie.mp4'' (part_path ''movie.mp4'' ''out'' 3) 240 120,
         Reencode ''movie.mp4'' (part_path ''movie.mp4'' ''out'' 3) 240 120] @ cs)"
proof -
  have r: "fsub 360 240 = 120" using rnd_of_int [of 120] by (simp add: fsub_def)
  have n: "\<not> tool_accepts split_demo_env
       (StreamCopy ''movie.mp4'' (part_path ''movie.mp4'' ''out'' 3) 240 120) None"
    by (simp add: tool_accepts_def split_demo_env_def split_demo_run_def)
  show ?thesis
    using n stream_copy_fallback [where env = split_demo_env and v = "''movie.mp4''"
        and d = "''out''" and i = 3 and s = 240 and e = 360 and w = empty_world
        and rest = "[]" and acc = "[]"]
    by (simp add: Let_def r empty_world_def)
qed

subsection \<open>A failed split leaves no part behind\<close>

text \<open>
  Claim C1.  When part \<open>i\<close> is the first part of the plan for which both the stream copy
  and the re-encode fail, \<open>split_video\<close> raises the \<open>ValueError\<close> that names part \<open>i\<close>,
  and afterwards no file exists at the output path of any of the parts 1 to \<open>i\<close>: the
  earlier parts are deleted and the failing one is removed.  Every other path, the
  output paths of the later parts included, holds what it held before the call.
\<close>

theorem split_video_all_or_nothing:
  assumes "fst (check_ffmpeg_installed env w) = Inr True"
    and "fst (get_video_duration env v w) = Inr duration"
    and "calculate_split_times duration num_parts = Inr plan"
    and "1 \<le> i" and "i \<le> length plan"
    and "part_fails env v d w (i, plan ! (i - 1))"
    and "\<forall>j. 1 \<le> j \<and> j < i \<longrightarrow> \<not> part_fails env v d w (j, plan ! (j - 1))"
  shows "fst (split_video env v num_parts d True w) =
           Inl (ValueError (''Failed to split video at part '' @ str_int (int i)))
         \<and> (\<forall>p. files (snd (split_video env v num_parts d True w)) p =
               (if p \<in> part_path v d ` {1..i} then None else files w p))"
proof -
  define w1 where "w1 = snd (check_ffmpeg_installed env w)"
  define w2 where "w2 = snd (get_video_duration env v w1)"
  have c: "check_ffmpeg_installed env w = (Inr True, w1)"
    using assms(1) by (simp add: w1_def prod_eq_iff)
  have g: "get_video_duration env v w1 = (Inr duration, w2)"
    using assms(2) fst_get_video_duration [of env v w1 w] by (simp add: w2_def prod_eq_iff)
  have n: "\<not> (num_parts < 2 \<or> num_parts > 20)"
    using assms(3) by (auto simp: calculate_split_times_def split: if_splits)
  have sv: "split_video env v num_parts d True w =
      split_parts env v d True (enumerate1 plan) [] w2"
    using n by (simp add: split_video_def c g assms(3))
  have f2: "files w2 = files w" by (simp add: w2_def w1_def)
  obtain k where k: "i = Suc k" "k < length plan"
    using assms(4,5) by (cases i) auto
  have fails: "part_fails env v d w2 (enumerate1 plan ! k)"
    using assms(6) k part_fails_cong [of w2 v d "(i, plan ! k)" w env]
    by (simp add: enumerate1_nth f2)
  have before: "\<forall>j<k. \<not> part_fails env v d w2 (enumerate1 plan ! j)"
  proof (intro allI impI)
    fix j assume j: "j < k"
    then have "\<not> part_fails env v d w (Suc j, plan ! j)" using assms(7) k by auto
    then show "\<not> part_fails env v d w2 (enumerate1 plan ! j)"
      using j k part_fails_cong [of w2 v d "(Suc j, plan ! j)" w env]
      by (simp add: enumerate1_nth f2)
  qed
  have dist: "distinct (map fst (enumerate1 plan))" by (simp only: enumerate1_fst distinct_upt)
  have len: "k < length (enumerate1 plan)" using k by (simp add: enumerate1_def)
  show ?thesis
    using split_parts_first_failure [OF dist len fails before, of "[]"] k
    by (simp add: sv enumerate1_nth enumerate1_take_paths f2)
qed

theorem split_video_all_or_nothing_witness:
  "fst (split_video split_demo_env ''movie.mp4'' 5 ''out'' True empty_world) =
     Inl (ValueError ''Failed to split video at part 3'')
   \<and> files (snd (split_video split_demo_env ''movie.mp4'' 5 ''out'' True empty_world))
        (part_path ''movie.mp4'' ''out'' 1) = None
   \<and> files (snd (split_video split_demo_env ''movie.mp4'' 5 ''out'' True empty_world))
        (part_path ''movie.mp4'' ''out'' 2) = None
   \<and> files (snd (split_video split_demo_env ''movie.mp4'' 5 ''out'' True empty_world))
        (part_path ''movie.mp4'' ''out'' 3) = None"
proof -
  let ?plan = "[(0, 120), (120, 240), (240, 360), (360, 480), (480, 600 :: real)]"
  have r: "rnd 120 = 120" using rnd_of_int [of 120] by simp
  have h1: "fst (check_ffmpeg_installed split_demo_env empty_world) = Inr True"
    by (simp add: check_ffmpeg_installed_def subprocess_run_def split_demo_env_def
        split_demo_run_def)
  have h2: "fst (get_video_duration split_demo_env ''movie.mp4'' empty_world) = Inr 600"
    by (simp add: get_video_duration_def subprocess_run_def split_demo_env_def
        split_demo_run_def py_strip_def is_space_def)
  have h4: "(1::nat) \<le> 3" and h5: "3 \<le> length ?plan" by simp_all
  have h6: "part_fails split_demo_env ''movie.mp4'' ''out'' empty_world (3, ?plan ! (3 - 1))"
    by (simp add: part_fails_iff tool_accepts_def split_demo_env_def split_demo_run_def
        fsub_def r)
  have h7: "\<forall>j. 1 \<le> j \<and> j < 3 \<longrightarrow>
      \<not> part_fails split_demo_env ''movie.mp4'' ''out'' empty_world (j, ?plan ! (j - 1))"
  proof (intro allI impI)
    fix j :: nat assume "1 \<le> j \<and> j < 3"
    then have "j = 1 \<or> j = 2" by auto
    then show "\<not> part_fails split_demo_env ''movie.mp4'' ''out'' empty_world (j, ?plan ! (j - 1))"
      by (auto simp: part_fails_iff tool_accepts_def split_demo_env_def split_demo_run_def
          fsub_def r)
  qed
  have three: "{1..3::nat} = {1, 2, 3}" by auto
  show ?thesis
    using split_video_all_or_nothing [OF h1 h2 plan_600_5 h4 h5 h6 h7]
    by (simp add: three str_int_def str_nat_small digit_char_def)
qed

subsection \<open>Facts about compression\<close>


lemma py_lower_medium: "py_lower ''medium'' = ''medium''"
  by (simp add: py_lower_def lower_char_def)

lemma calls_check_ffmpeg [simp]:
  "calls (snd (check_ffmpeg_installed env w)) = calls w @ [FfmpegVersion]"
  by (simp add: check_ffmpeg_installed_def case_prod_beta)

lemma calls_get_video_duration [simp]:
  "calls (snd (get_video_duration env v w)) = calls w @ [ProbeDuration v]"
  by (simp add: get_video_duration_def case_prod_beta)

lemma calls_run_two_pass_encode:
  "\<exists>cs. calls (snd (run_two_pass_encode env i out b a lg w)) =
          calls w @ [Pass1 i (py_int b) lg] @ cs"
proof -
  define w1 where "w1 = snd (subprocess_run env (Pass1 i (py_int b) lg) w)"
  define w2 where "w2 = snd (subprocess_run env (Pass2 i out (py_int b) a lg) w1)"
  have c1: "calls w1 = calls w @ [Pass1 i (py_int b) lg]" by (simp add: w1_def)
  have c2: "calls w2 = calls w @ [Pass1 i (py_int b) lg] @ [Pass2 i out (py_int b) a lg]"
    by (simp add: w2_def c1)
  have "snd (run_two_pass_encode env i out b a lg w) \<in> {w1, unlink out w1, w2, unlink out w2}"
    by (auto simp: run_two_pass_encode_def w1_def w2_def Let_def
        split: prod.splits run_status.splits)
  then show ?thesis using c1 c2 by auto
qed

subsection \<open>A target size that needs less than 100 kbps is refused\<close>

text \<open>
  Claim C4.  With ffmpeg installed and a probed duration above zero,
  \<open>compress_target_size\<close> with the default audio bitrate computes the video bitrate
  \<open>(target_size_mb * 8192 / duration) - 128\<close> in float arithmetic.  When that bitrate
  is below 100 it raises the \<open>ValueError\<close> for a target that is too small, having run
  only the version check and the duration probe, no encode pass.  Otherwise it does not
  raise that error: the next command it runs is pass 1 at the truncated bitrate.  A
  target of 10 MB for 600 seconds gives about 8.5 kbps and is refused.
\<close>

theorem compress_target_size_too_small:
  assumes "fst (check_ffmpeg_installed env w) = Inr True"
    and "fst (get_video_duration env v w) = Inr duration"
    and "0 < duration"
  shows "let bitrate = fsub (fdiv (fmul target_size_mb 8192) duration) 128;
             r = compress_target_size env v target_size_mb out 128 w
         in (bitrate < 100 \<longrightarrow>
               fst r = Inl (ValueError ''Target size too small - would result in unplayable video'')
               \<and> calls (snd r) = calls w @ [FfmpegVersion, ProbeDuration v])
            \<and> (\<not> bitrate < 100 \<longrightarrow>
                 fst r \<noteq> Inl (ValueError ''Target size too small - would result in unplayable video'')
                 \<and> (\<exists>cs. calls (snd r) =
                       calls w @ [FfmpegVersion, ProbeDuration v,
                                  Pass1 v (py_int bitrate) (path_join (temp_dir env) ''ffmpeg2pass'')]
                         @ cs))"
proof -
  define w1 where "w1 = snd (check_ffmpeg_installed env w)"
  define w2 where "w2 = snd (get_video_duration env v w1)"
  define bitrate where "bitrate = fsub (fdiv (fmul target_size_mb 8192) duration) 128"
  define lg where "lg = path_join (temp_dir env) ''ffmpeg2pass''"
  define tp where "tp = run_two_pass_encode env v out bitrate 128 lg w2"
  have c: "check_ffmpeg_installed env w = (Inr True, w1)"
    using assms(1) by (simp add: w1_def prod_eq_iff)
  have g: "get_video_duration env v w1 = (Inr duration, w2)"
    using assms(2) fst_get_video_duration [of env v w1 w] by (simp add: w2_def prod_eq_iff)
  have a: "rnd 128 = 128" using rnd_of_int [of 128] by simp
  have c2: "calls w2 = calls w @ [FfmpegVersion, ProbeDuration v]"
    by (simp add: w2_def w1_def)
  have eq: "compress_target_size env v target_size_mb out 128 w =
      (if bitrate < 100
       then (Inl (ValueError ''Target size too small - would result in unplayable video''), w2)
       else if \<not> fst tp then (Inl (ValueError ''Video compression failed''), snd tp)
       else (Inr out, snd tp))"
    using assms(3)
    by (simp add: compress_target_size_def c g py_truediv_def a Let_def bitrate_def lg_def
        tp_def case_prod_beta)
  obtain cs where cs: "calls (snd tp) = calls w2 @ [Pass1 v (py_int bitrate) lg] @ cs"
    using calls_run_two_pass_encode [of env v out bitrate 128 lg w2] by (auto simp: tp_def)
  show ?thesis
    unfolding Let_def bitrate_def [symmetric] lg_def [symmetric] eq
    using c2 cs by auto
qed

lemma bitrate_10_600: "fsub (fdiv (fmul 10 8192) 600) 128 = 300239975158033 / 35184372088832"
proof -
  have m: "fmul 10 8192 = 81920" using rnd_of_int [of 81920] by (simp add: fmul_def)
  have d: "fdiv 81920 600 = 4803839602528529 / 35184372088832"
    unfolding fdiv_def by (subst rnd_eqI [where e = "- 45"]) (simp_all add: round_half_even_def)
  have s: "fsub (4803839602528529 / 35184372088832) 128 = 300239975158033 / 35184372088832"
    unfolding fsub_def by (subst rnd_eqI [where e = "- 49"]) (simp_all add: round_half_even_def)
  show ?thesis by (simp only: m d s)
qed

lemma bitrate_100_600: "fsub (fdiv (fmul 100 8192) 600) 128 = 5441849549739349 / 4398046511104"
proof -
  have m: "fmul 100 8192 = 819200" using rnd_of_int [of 819200] by (simp add: fmul_def)
  have d: "fdiv 819200 600 = 6004799503160661 / 4398046511104"
    unfolding fdiv_def by (subst rnd_eqI [where e = "- 42"]) (simp_all add: round_half_even_def)
  have s: "fsub (6004799503160661 / 4398046511104) 128 = 5441849549739349 / 4398046511104"
    unfolding fsub_def by (subst rnd_eqI [where e = "- 42"]) (simp_all add: round_half_even_def)
  show ?thesis by (simp only: m d s)
qed


theorem compress_target_size_too_small_witness:
  "fst (compress_target_size compress_demo_env ''in.mp4'' 10 ''out.mp4'' 128 empty_world) =
     Inl (ValueError ''Target size too small - would result in unplayable video'')
   \<and> calls (snd (compress_target_size compress_demo_env ''in.mp4'' 10 ''out.mp4'' 128
                 empty_world)) = [FfmpegVersion, ProbeDuration ''in.mp4'']
   \<and> fst (compress_target_size compress_demo_env ''in.mp4'' 100 ''out.mp4'' 128 empty_world) \<noteq>
       Inl (ValueError ''Target size too small - would result in unplayable video'')"
proof -
  have h1: "fst (check_ffmpeg_installed compress_demo_env empty_world) = Inr True"
    by (simp add: check_ffmpeg_installed_def subprocess_run_def compress_demo_env_def
        split_demo_env_def compress_demo_run_def)
  have h2: "fst (get_video_duration compress_demo_env ''in.mp4'' empty_world) = Inr 600"
    by (simp add: get_video_duration_def subprocess_run_def compress_demo_env_def
        split_demo_env_def compress_demo_run_def py_strip_def is_space_def)
  have h3: "(0::real) < 600" by simp
  show ?thesis
    using compress_target_size_too_small [OF h1 h2 h3, of 10 "''out.mp4''"]
      compress_target_size_too_small [OF h1 h2 h3, of 100 "''out.mp4''"]
    by (simp add: Let_def bitrate_10_600 bitrate_100_600 empty_world_def)
qed


subsection \<open>An unknown quality preset is encoded as medium\<close>




subsection \<open>Facts about probing\<close>

lemma calls_get_video_info [simp]:
  "calls (snd (get_video_info env v w)) = calls w @ [ProbeInfo v]"
  by (simp add: get_video_info_def case_prod_beta)

lemma fst_get_video_info:
  "fst (get_video_info env v w) = fst (get_video_info env v u)"
  by (simp add: get_video_info_def case_prod_beta)

subsection \<open>A file without streams is described, not refused\<close>

text \<open>
  The probe of a file whose output decodes and lists no stream returns a description
  with codec and resolution \<open>unknown\<close>; it raises nothing.
\<close>

theorem get_video_info_no_streams_counterexample:
  "fst (get_video_info (probe_demo_env no_streams) ''clip.mp4'' empty_world) =
     Inr \<lparr>info_filename = ''clip.mp4'',
          info_duration = 600,
          info_duration_formatted = ''10:00'',
          info_size = 104857600,
          info_video_codec = JStr ''unknown'',
          info_resolution = ''unknown''\<rparr>"
proof -
  have f: "format_duration 600 = ''10:00''" by (rule format_duration_600)
  show ?thesis
    by (simp add: get_video_info_def subprocess_run_def probe_demo_env_def no_streams_def
        video_info_of_def py_get_def py_float_def py_int_of_def py_iter_def truthy_def
        path_name_def path_parts_def f)
qed

text \<open>
  Claim C9, amended.  When the probe exits with 0, its output decodes to an object,
  the duration and size of the format section convert, and the stream list is empty or
  absent, \<open>get_video_info\<close> does not fail: it returns the description with that
  duration and size, the video codec \<open>unknown\<close> and the resolution \<open>unknown\<close>.
\<close>

theorem get_video_info_no_streams:
  assumes "fst (run env (ProbeInfo v)) = Exited 0 out err"
    and "json_loads env out = Inr (JObj items)"
    and "py_get (JObj items) ''streams'' (JArr []) = Inr (JArr [])"
    and "py_get (JObj items) ''format'' (JObj []) = Inr format_info"
    and "py_get format_info ''duration'' (JInt 0) = Inr d"
    and "py_float env d = Inr duration"
    and "py_get format_info ''size'' (JInt 0) = Inr s"
    and "py_int_of env s = Inr size_bytes"
  shows "fst (get_video_info env v w) =
           Inr \<lparr>info_filename = path_name v,
                info_duration = duration,
                info_duration_formatted = format_duration duration,
                info_size = size_bytes,
                info_video_codec = JStr ''unknown'',
                info_resolution = ''unknown''\<rparr>"
proof -
  have "video_info_of env v (JObj items) =
      Inr \<lparr>info_filename = path_name v,
           info_duration = duration,
           info_duration_formatted = format_duration duration,
           info_size = size_bytes,
           info_video_codec = JStr ''unknown'',
           info_resolution = ''unknown''\<rparr>"
    using assms(3-8) by (simp add: video_info_of_def py_iter_def truthy_def)
  then show ?thesis
    using assms(1,2) by (simp add: get_video_info_def case_prod_beta)
qed

theorem get_video_info_no_streams_witness:
  "fst (get_video_info (probe_demo_env no_streams) ''clip.mp4'' empty_world) =
     Inr \<lparr>info_filename = path_name ''clip.mp4'',
          info_duration = 600,
          info_duration_formatted = format_duration 600,
          info_size = 104857600,
          info_video_codec = JStr ''unknown'',
          info_resolution = ''unknown''\<rparr>"
proof -
  let ?env = "probe_demo_env no_streams"
  let ?fmt = "JObj [(''duration'', JStr ''600.000000''), (''size'', JStr ''104857600'')]"
  have h1: "fst (run ?env (ProbeInfo ''clip.mp4'')) = Exited 0 ''{...}'' []"
    by (simp add: probe_demo_env_def)
  have h2: "json_loads ?env ''{...}'' =
      Inr (JObj [(''format'', ?fmt), (''streams'', JArr [])])"
    by (simp add: probe_demo_env_def no_streams_def)
  have h3: "py_get (JObj [(''format'', ?fmt), (''streams'', JArr [])]) ''streams'' (JArr []) =
      Inr (JArr [])"
    by (simp add: py_get_def)
  have h4: "py_get (JObj [(''format'', ?fmt), (''streams'', JArr [])]) ''format'' (JObj []) =
      Inr ?fmt"
    by (simp add: py_get_def)
  have h5: "py_get ?fmt ''duration'' (JInt 0) = Inr (JStr ''600.000000'')"
    by (simp add: py_get_def)
  have h6: "py_float ?env (JStr ''600.000000'') = Inr 600"
    by (simp add: py_float_def probe_demo_env_def)
  have h7: "py_get ?fmt ''size'' (JInt 0) = Inr (JStr ''104857600'')"
    by (simp add: py_get_def)
  have h8: "py_int_of ?env (JStr ''104857600'') = Inr 104857600"
    by (simp add: py_int_of_def probe_demo_env_def)
  show ?thesis
    by (rule get_video_info_no_streams [OF h1 h2 h3 h4 h5 h6 h7 h8])
qed

subsection \<open>Facts about size estimation\<close>

lemma round_half_even_zero [simp]: "round_half_even 0 = 0"
  by (simp add: round_half_even_def)

lemma round_half_even_numeral [simp]: "round_half_even (numeral k) = numeral k"
  using round_half_even_of_int [of "numeral k"] by simp

lemma round_half_even_ge_floor: "\<lfloor>y\<rfloor> \<le> round_half_even y"
  by (simp add: round_half_even_def Let_def)

lemma rnd_pos:
  assumes "2 powi (- 1074) \<le> x"
  shows "0 < rnd x"
proof -
  define e where "e = ulp_exp x"
  have x: "0 < x" using assms by (rule less_le_trans [rotated]) simp
  show ?thesis
  proof (cases "e = - 1074")
    case True
    have "1 \<le> x / 2 powi (- 1074)" using assms by (simp add: le_divide_eq)
    then have "1 \<le> \<lfloor>x / 2 powi (- 1074)\<rfloor>" by (simp add: le_floor_iff)
    then have "1 \<le> round_half_even (x / 2 powi (- 1074))"
      using round_half_even_ge_floor [of "x / 2 powi (- 1074)"] by linarith
    then have "0 < (of_int (round_half_even (x / 2 powi (- 1074))) :: real)" by simp
    then have "0 < of_int (round_half_even (x / 2 powi (- 1074))) * (2::real) powi (- 1074)"
      by (intro mult_pos_pos) simp_all
    then show ?thesis using True by (simp only: rnd_def e_def [symmetric] Let_def)
  next
    case False
    then have "- 1074 < e" using ulp_exp_range [of x] by (simp add: e_def)
    then have "2 ^ 52 * 2 powi e \<le> \<bar>x\<bar>" using ulp_exp_lower [of x] by (simp add: e_def)
    then have lo: "2 ^ 52 * 2 powi e \<le> x" using x by simp
    have "(2::real) powi e \<le> 2 ^ 52 * 2 powi e" by simp
    then have "2 powi e / 2 < x" using lo
      by (smt (verit) zero_less_power_int field_sum_of_halves)
    moreover have "\<bar>rnd x - x\<bar> \<le> 2 powi e / 2" using rnd_error [of x] by (simp add: e_def)
    ultimately show ?thesis by linarith
  qed
qed

lemma original_size_pos:
  assumes "0 < (n::int)"
  shows "0 < fdiv (of_int n) (of_int (1024 * 1024))"
proof -
  have "(1::real) \<le> of_int n" using assms by simp
  then have "1 / 1048576 \<le> (of_int n :: real) / 1048576" by (simp add: divide_right_mono)
  moreover have "(2::real) powi (- 1074) \<le> 1 / 1048576"
  proof -
    have "(2::real) powi (- 1074) \<le> 2 powi (- 20)" by (intro power_int_increasing) simp_all
    also have "\<dots> = 1 / 1048576" by (simp add: power_int_minus_divide)
    finally show ?thesis .
  qed
  ultimately have "2 powi (- 1074) \<le> (of_int n :: real) / 1048576" by linarith
  then show ?thesis unfolding fdiv_def by (simp add: rnd_pos)
qed

lemma py_round_zero [simp]: "py_round 0 n = 0"
  by (simp add: py_round_def)

lemma estimate_unchanged:
  assumes "get_video_info env v w = (Inr info, w1)"
    and "0 < info_size info"
    and "estimated_size env info (fdiv (of_int (info_size info)) (of_int (1024 * 1024)))
           mode t q r = Inr (fdiv (of_int (info_size info)) (of_int (1024 * 1024)))"
  shows "estimate_output_size env v mode t q r w =
           (Inr \<lparr>est_original_size_mb = py_round (fdiv (of_int (info_size info)) (of_int (1024 * 1024))) 2,
                 est_estimated_size_mb = py_round (fdiv (of_int (info_size info)) (of_int (1024 * 1024))) 2,
                 est_reduction_percent = 0\<rparr>, w1)"
proof -
  define o_mb where "o_mb = fdiv (of_int (info_size info)) (of_int (1024 * 1024))"
  have pos: "0 < o_mb" using original_size_pos [OF assms(2)] by (simp add: o_mb_def)
  have "py_truediv (fsub o_mb o_mb) o_mb = Inr 0"
    using pos by (simp add: py_truediv_def fsub_def fdiv_def)
  then show ?thesis
    using assms(1,3) by (simp add: estimate_output_size_def Let_def o_mb_def fmul_def)
qed

lemma estimated_size_fallthrough:
  assumes "mode \<notin> {''target_size'', ''quality'', ''resolution''}
           \<or> mode = ''target_size'' \<and> \<not> given_float t
           \<or> mode = ''quality'' \<and> \<not> given_str q
           \<or> mode = ''resolution'' \<and> \<not> (given_str r \<and> given_str q)"
  shows "estimated_size env info o_mb mode t q r = Inr o_mb"
  using assms by (auto simp: estimated_size_def)

lemma estimate_quality:
  assumes "get_video_info env v w = (Inr info, w1)"
    and "0 < info_size info"
    and "given_str (Some preset)"
  shows "estimate_output_size env v ''quality'' t (Some preset) r w =
           (let o_mb = fdiv (of_int (info_size info)) (of_int (1024 * 1024));
                e_mb = fmul o_mb (compression_ratio preset)
            in (Inr \<lparr>est_original_size_mb = py_round o_mb 2,
                      est_estimated_size_mb = py_round e_mb 2,
                      est_reduction_percent = py_round (fmul (fdiv (fsub o_mb e_mb) o_mb) 100) 1\<rparr>,
                w1))"
proof -
  define o_mb where "o_mb = fdiv (of_int (info_size info)) (of_int (1024 * 1024))"
  have pos: "0 < o_mb" using original_size_pos [OF assms(2)] by (simp add: o_mb_def)
  have "estimated_size env info o_mb ''quality'' t (Some preset) r =
      Inr (fmul o_mb (compression_ratio preset))"
    using assms(3) by (simp add: estimated_size_def)
  then show ?thesis
    using assms(1) pos by (simp add: estimate_output_size_def Let_def o_mb_def py_truediv_def)
qed

lemma rnd_half: "rnd (1 / 2) = 1 / 2"
  using rnd_exact [of "1 / 2" 1 "- 1"] by (simp add: power_int_minus_divide)

lemma compression_ratio_medium: "compression_ratio ''medium'' = 1 / 2"
  by (simp add: compression_ratio_def py_lower_medium rnd_half)

lemma info_100mb:
  "get_video_info (probe_demo_env video_100mb) ''clip.mp4'' empty_world =
     (Inr \<lparr>info_filename = ''clip.mp4'',
           info_duration = 600,
           info_duration_formatted = ''10:00'',
           info_size = 104857600,
           info_video_codec = JStr ''h264'',
           info_resolution = ''1920x1080''\<rparr>,
      \<lparr>files = Map.empty, calls = [ProbeInfo ''clip.mp4'']\<rparr>)"
proof -
  have f: "format_duration 600 = ''10:00''" by (rule format_duration_600)
  have s: "str_nat 1920 = ''1920''" "str_nat 1080 = ''1080''"
    by (simp_all add: str_nat_unfold str_nat_small digit_char_def)
  show ?thesis
    by (simp add: get_video_info_def subprocess_run_def probe_demo_env_def video_100mb_def
        video_info_of_def py_get_def py_float_def py_int_of_def py_iter_def truthy_def
        path_name_def path_parts_def f py_str_def str_int_def s output_of_def empty_world_def)
qed

lemma estimate_100mb_medium:
  "fst (estimate_output_size (probe_demo_env video_100mb) ''clip.mp4'' ''quality'' None
          (Some ''medium'') None empty_world) =
     Inr \<lparr>est_original_size_mb = 100, est_estimated_size_mb = 50, est_reduction_percent = 50\<rparr>"
proof -
  have r: "rnd 100 = 100" "rnd 50 = 50" "rnd 500 = 500" "rnd 5000 = 5000" "rnd 10000 = 10000"
    using rnd_of_int [of 100] rnd_of_int [of 50] rnd_of_int [of 500] rnd_of_int [of 5000]
      rnd_of_int [of 10000] by simp_all
  show ?thesis
    using estimate_quality [OF info_100mb, of "''medium''" None None]
    by (simp add: given_str_def Let_def compression_ratio_medium fdiv_def fmul_def fsub_def
        py_round_def r rnd_half)
qed

subsection \<open>Estimates for a probe that reports no size\<close>

text \<open>
  Claim C6 says that the quality estimate returns the original size times the ratio of
  the preset, and the reduction in percent, for every probed size.  For a size above
  zero it does (\<open>estimate_quality\<close>; 100 MB at medium give 50.0 and 50.0,
  \<open>estimate_100mb_medium\<close>).  For a probe whose format section reports no size,
  which \<open>get_video_info\<close> reads as 0, the reduction divides by zero and
  \<open>estimate_output_size\<close> raises \<open>ZeroDivisionError\<close> instead of returning.
\<close>

theorem estimate_quality_zero_size:
  "fst (estimate_output_size (probe_demo_env video_no_size) ''clip.mp4'' ''quality'' None
          (Some ''medium'') None empty_world) = Inl ZeroDivisionError"
  by (simp add: estimate_output_size_def estimated_size_def given_str_def
      get_video_info_def subprocess_run_def probe_demo_env_def video_no_size_def
      video_info_of_def py_get_def py_float_def py_int_of_def py_iter_def truthy_def
      fdiv_def fmul_def fsub_def py_truediv_def Let_def)

text \<open>
  Claim C10 says that with an unknown mode, or with the parameters of the mode absent,
  the estimate does not fail and reports the original size with a reduction of 0.0.
  For a size above zero it does (\<open>estimate_unchanged\<close> with
  \<open>estimated_size_fallthrough\<close>).  For the probe that reports no size the same
  division by zero raises \<open>ZeroDivisionError\<close>.
\<close>

theorem estimate_unknown_mode_zero_size:
  "fst (estimate_output_size (probe_demo_env video_no_size) ''clip.mp4'' ''fast'' None None None
          empty_world) = Inl ZeroDivisionError"
  by (simp add: estimate_output_size_def estimated_size_def given_str_def
      get_video_info_def subprocess_run_def probe_demo_env_def video_no_size_def
      video_info_of_def py_get_def py_float_def py_int_of_def py_iter_def truthy_def
      fdiv_def fmul_def fsub_def py_truediv_def Let_def)

subsection \<open>Rounding errors of a plan\<close>

lemma rnd_rel_error:
  assumes "2 powi (- 1022) \<le> \<bar>x\<bar>"
  shows "\<bar>rnd x - x\<bar> \<le> \<bar>x\<bar> / 2 ^ 53"
proof -
  define e where "e = ulp_exp x"
  have lo: "2 ^ 52 * 2 powi e \<le> \<bar>x\<bar>"
  proof (cases "e = - 1074")
    case True
    have "(2::real) ^ 52 * 2 powi (- 1074) = 2 powi (52 + - 1074)"
      by (subst power_int_add) simp_all
    then have "(2::real) ^ 52 * 2 powi (- 1074) = 2 powi (- 1022)" by simp
    then show ?thesis using assms True by simp
  next
    case False
    then have "- 1074 < e" using ulp_exp_range [of x] by (simp add: e_def)
    then show ?thesis using ulp_exp_lower [of x] by (simp add: e_def)
  qed
  have "\<bar>rnd x - x\<bar> \<le> 2 powi e / 2" using rnd_error [of x] by (simp add: e_def)
  also have "\<dots> = 2 ^ 52 * 2 powi e / 2 ^ 53" by simp
  also have "\<dots> \<le> \<bar>x\<bar> / 2 ^ 53" using lo by (intro divide_right_mono) simp_all
  finally show ?thesis .
qed

lemma rnd_step_strict:
  assumes pd: "0 < pd" and grid: "pd = of_int m * 2 powi (- 1074)" and i: "i < 20"
  shows "rnd (of_nat i * pd) < rnd (of_nat (Suc i) * pd)"
proof -
  define x where "x = of_nat i * pd"
  define y where "y = of_nat (Suc i) * pd"
  have x0: "0 \<le> x" using pd by (simp add: x_def)
  have yx: "y - x = pd" by (simp add: x_def y_def algebra_simps)
  have xy: "\<bar>x\<bar> \<le> \<bar>y\<bar>" using x0 yx pd by simp
  have y20: "y \<le> 20 * pd"
  proof -
    have "(of_nat (Suc i) :: real) \<le> 20" using i by simp
    then show ?thesis using pd unfolding y_def by (intro mult_right_mono) simp_all
  qed
  have mono: "ulp_exp x \<le> ulp_exp y" using xy by (rule ulp_exp_mono)
  show ?thesis
  proof (cases "ulp_exp y = - 1074")
    case True
    then have ex: "ulp_exp x \<le> - 1074" using mono by simp
    have ey: "ulp_exp y \<le> - 1074" using True by simp
    have "x = of_int (int i * m) * 2 powi (- 1074)"
      unfolding x_def grid by (simp only: of_int_mult of_int_of_nat_eq mult.assoc)
    then have rx: "rnd x = x" using ex by (rule rnd_grid)
    have "y = of_int (int (Suc i) * m) * 2 powi (- 1074)"
      unfolding y_def grid by (simp only: of_int_mult of_int_of_nat_eq mult.assoc)
    then have ry: "rnd y = y" using ey by (rule rnd_grid)
    have "rnd x < rnd y" using rx ry yx pd by linarith
    then show ?thesis by (simp only: x_def y_def)
  next
    case False
    then have "- 1074 < ulp_exp y" using ulp_exp_range [of y] by simp
    then have "2 ^ 52 * 2 powi (ulp_exp y) \<le> \<bar>y\<bar>" by (rule ulp_exp_lower)
    then have "2 ^ 52 * 2 powi (ulp_exp y) \<le> 20 * pd" using y20 x0 yx pd by simp
    moreover have "(0::real) < 2 powi (ulp_exp y)" by simp
    ultimately have small: "2 powi (ulp_exp y) < pd" using pd by simp
    have "(2::real) powi (ulp_exp x) \<le> 2 powi (ulp_exp y)"
      using mono by (intro power_int_increasing) simp_all
    then have ex: "\<bar>rnd x - x\<bar> \<le> 2 powi (ulp_exp y) / 2" using rnd_error [of x] by simp
    have ey: "\<bar>rnd y - y\<bar> \<le> 2 powi (ulp_exp y) / 2" by (rule rnd_error)
    have "rnd x < rnd y" using ex ey small yx by linarith
    then show ?thesis by (simp only: x_def y_def)
  qed
qed

lemma fdiv_mul_back:
  assumes n: "2 \<le> n" "n \<le> 20" and lo: "2 powi (- 1022) \<le> d / n"
  shows "\<bar>rnd (n * rnd (d / n)) - d\<bar> \<le> d / 2 ^ 51"
proof -
  define tiny :: real where "tiny = 2 powi (- 1022)"
  define u :: real where "u = 1 / 2 ^ 53"
  define q where "q = rnd (d / n)"
  have tiny: "0 < tiny" by (simp only: tiny_def zero_less_power_int zero_less_numeral)
  have lo': "tiny \<le> d / n" using lo by (simp only: tiny_def)
  have rel: "\<bar>rnd x - x\<bar> \<le> \<bar>x\<bar> * u" if "tiny \<le> \<bar>x\<bar>" for x
  proof -
    have "\<bar>rnd x - x\<bar> \<le> \<bar>x\<bar> / 2 ^ 53" using that unfolding tiny_def by (rule rnd_rel_error)
    then show ?thesis by (simp add: u_def)
  qed
  have npos: "0 < n" using n by simp
  have dn: "0 < d / n" using lo' tiny by linarith
  then have d: "0 < d" using npos by (simp add: zero_less_divide_iff)
  have "tiny \<le> \<bar>d / n\<bar>" using lo' dn by linarith
  then have "\<bar>q - d / n\<bar> \<le> \<bar>d / n\<bar> * u" unfolding q_def by (rule rel)
  moreover have "\<bar>d / n\<bar> = d / n" using dn by (rule abs_of_pos)
  ultimately have "\<bar>q - d / n\<bar> \<le> d / n * u" by (simp only:)
  then have "n * \<bar>q - d / n\<bar> \<le> n * (d / n * u)" using npos by (intro mult_left_mono) simp_all
  moreover have "n * \<bar>q - d / n\<bar> = \<bar>n * q - d\<bar>"
  proof -
    have "n * \<bar>q - d / n\<bar> = \<bar>n * (q - d / n)\<bar>" using npos by (simp add: abs_mult)
    also have "n * (q - d / n) = n * q - d" using npos by (simp add: algebra_simps)
    finally show ?thesis .
  qed
  moreover have "n * (d / n * u) = d * u" using npos by simp
  ultimately have e1: "\<bar>n * q - d\<bar> \<le> d * u" by simp
  have u: "0 < u" "u \<le> 1 / 2" by (simp_all add: u_def)
  have du: "d * u \<le> d / 2" using u d by (simp add: mult_left_le_imp_le field_simps)
  have half: "d / 2 \<le> n * q" using e1 du by linarith
  have "tiny * n \<le> d" using lo' npos by (simp add: le_divide_eq)
  moreover have "tiny * 2 \<le> tiny * n" using n tiny by (intro mult_left_mono) simp_all
  ultimately have "tiny \<le> d / 2" by linarith
  then have nq: "tiny \<le> \<bar>n * q\<bar>" using half by linarith
  have e2: "\<bar>rnd (n * q) - n * q\<bar> \<le> \<bar>n * q\<bar> * u" using nq by (rule rel)
  have "\<bar>n * q\<bar> \<le> d + d * u" using e1 d by linarith
  then have "\<bar>n * q\<bar> * u \<le> (d + d * u) * u" using u by (intro mult_right_mono) simp_all
  then have "\<bar>rnd (n * q) - d\<bar> \<le> d * u + (d + d * u) * u" using e1 e2 by linarith
  also have "\<dots> = d * (u * (2 + u))" by (simp add: algebra_simps)
  also have "\<dots> \<le> d * (1 / 2 ^ 51)"
    using d by (intro mult_left_mono) (simp_all add: u_def)
  finally show ?thesis by (simp add: q_def)
qed

text \<open>
  Up to a duration of \<open>2 ^ 1023\<close> seconds neither the quotient nor any product of a plan
  reaches \<open>2 ^ 1024 - 2 ^ 970\<close>, the least magnitude that rounds to infinity.
\<close>

lemma fdiv_mul_exact:
  assumes n: "2 \<le> n" "n \<le> 20" and lo: "2 powi (- 1022) \<le> d / n"
  shows "\<bar>n * rnd (d / n) - d\<bar> \<le> d / 2 ^ 53"
proof -
  have npos: "0 < n" using n by simp
  have tiny: "(0::real) < 2 powi (- 1022)" by (simp only: zero_less_power_int zero_less_numeral)
  have dn: "0 < d / n" using lo tiny by linarith
  have "2 powi (- 1022) \<le> \<bar>d / n\<bar>" using lo dn by linarith
  then have "\<bar>rnd (d / n) - d / n\<bar> \<le> \<bar>d / n\<bar> / 2 ^ 53" by (rule rnd_rel_error)
  moreover have "\<bar>d / n\<bar> = d / n" using dn by (rule abs_of_pos)
  ultimately have "\<bar>rnd (d / n) - d / n\<bar> \<le> d / n / 2 ^ 53" by (simp only:)
  then have "n * \<bar>rnd (d / n) - d / n\<bar> \<le> n * (d / n / 2 ^ 53)"
    using npos by (intro mult_left_mono) simp_all
  moreover have "n * \<bar>rnd (d / n) - d / n\<bar> = \<bar>n * rnd (d / n) - d\<bar>"
  proof -
    have "n * \<bar>rnd (d / n) - d / n\<bar> = \<bar>n * (rnd (d / n) - d / n)\<bar>"
      using npos by (simp add: abs_mult)
    also have "n * (rnd (d / n) - d / n) = n * rnd (d / n) - d"
      using npos by (simp add: algebra_simps)
    finally show ?thesis .
  qed
  moreover have "n * (d / n / 2 ^ 53) = d / 2 ^ 53" using npos by simp
  ultimately show ?thesis by simp
qed

lemma plan_no_overflow:
  assumes n: "2 \<le> n" "n \<le> 20" and lo: "2 powi (- 1022) \<le> d / n"
    and hi: "d \<le> 2 ^ 1023" and k: "0 \<le> k" "k \<le> n"
  shows "d / n < 2 ^ 1024 - 2 ^ 970" and "k * rnd (d / n) < 2 ^ 1024 - 2 ^ 970"
proof -
  define B :: real where "B = 2 ^ 970"
  have B: "0 < B" by (simp add: B_def)
  have p1023: "(2::real) ^ 1023 = B * 2 ^ 53"
    unfolding B_def by (simp only: power_add [symmetric]) simp
  have p1024: "(2::real) ^ 1024 - 2 ^ 970 = B * (2 ^ 54 - 1)"
  proof -
    have "(2::real) ^ 1024 = B * 2 ^ 54"
      unfolding B_def by (simp only: power_add [symmetric]) simp
    then show ?thesis by (simp only: B_def right_diff_distrib mult_1_right)
  qed
  have npos: "0 < n" using n by simp
  have tiny: "(0::real) < 2 powi (- 1022)" by (simp only: zero_less_power_int zero_less_numeral)
  have dn: "0 < d / n" using lo tiny by linarith
  then have d: "0 < d" using npos by (simp add: zero_less_divide_iff)
  have dB: "d \<le> B * 2 ^ 53" using hi by (simp only: p1023)
  have "d / n \<le> d / 2" using d n(1) by (intro divide_left_mono) simp_all
  then have "d / n \<le> B * 2 ^ 53" using dB d by linarith
  moreover have "B * 2 ^ 53 < B * (2 ^ 54 - 1)" using B by (intro mult_strict_left_mono) simp_all
  ultimately show "d / n < 2 ^ 1024 - 2 ^ 970" by (simp only: p1024)
  have "(2::real) powi (- 1074) \<le> 2 powi (- 1022)"
    by (intro power_int_increasing) simp_all
  then have "0 < rnd (d / n)" using lo by (intro rnd_pos) linarith
  then have q0: "0 \<le> rnd (d / n)" by (rule less_imp_le)
  have e: "\<bar>n * rnd (d / n) - d\<bar> \<le> d / 2 ^ 53" using n lo by (rule fdiv_mul_exact)
  have "k * rnd (d / n) \<le> n * rnd (d / n)" using k(2) q0 by (intro mult_right_mono)
  also have "\<dots> \<le> d + d / 2 ^ 53" using e by linarith
  also have "\<dots> \<le> B * 2 ^ 53 + B * 2 ^ 53 / 2 ^ 53"
    using dB by (intro add_mono divide_right_mono) simp_all
  also have "\<dots> = B * (2 ^ 53 + 1)" by (simp add: algebra_simps)
  also have "\<dots> < B * (2 ^ 54 - 1)" using B by (intro mult_strict_left_mono) simp_all
  finally show "k * rnd (d / n) < 2 ^ 1024 - 2 ^ 970" by (simp only: p1024)
qed

subsection \<open>The plan of a split\<close>

lemma calculate_split_times_ok:
  "2 \<le> num_parts \<Longrightarrow> num_parts \<le> 20 \<Longrightarrow>
     calculate_split_times duration num_parts =
       Inr (map (\<lambda>i. (fmul (of_nat i) (fdiv duration (of_int num_parts)),
                         fmul (of_nat (i + 1)) (fdiv duration (of_int num_parts))))
              [0..<nat num_parts])"
  by (simp add: calculate_split_times_def Let_def)

lemma fdiv_60_11: "fdiv 60 11 = 6141272219141585 / 1125899906842624"
  unfolding fdiv_def by (subst rnd_eqI [where e = "- 50"]) (simp_all add: round_half_even_def)

lemma fmul_11_back: "fmul 11 (6141272219141585 / 1125899906842624) = 8444249301319679 / 140737488355328"
  unfolding fmul_def by (subst rnd_eqI [where e = "- 47"]) (simp_all add: round_half_even_def)

text \<open>
  The smallest positive float in 2 parts: the quotient is a tie between 0 and that
  float and rounds to the even one, 0, so both ranges are empty.
\<close>

lemma calculate_split_times_underflow:
  "calculate_split_times (2 powi (- 1074)) 2 = Inr [(0, 0), (0, 0)]"
proof -
  have e: "ulp_exp (2 powi (- 1074) / 2) = - 1074"
    by (rule ulp_exp_subnormal) simp
  have "(2::real) powi (- 1074) / 2 / 2 powi (- 1074) = 1 / 2" by simp
  then have "round_half_even ((2::real) powi (- 1074) / 2 / 2 powi (- 1074)) = 0"
    by (simp add: round_half_even_def)
  then have q: "fdiv (2 powi (- 1074)) 2 = 0"
    unfolding fdiv_def rnd_def Let_def e by simp
  have u: "[0..<nat 2] = [0, 1]" by (simp add: upt_rec)
  have "calculate_split_times d 2 = Inr [(0, 0), (0, 0)]" if "fdiv d 2 = 0" for d
    using that u by (simp add: calculate_split_times_def fmul_def)
  then show ?thesis using q by blast
qed

text \<open>
  One minute in 11 parts: the quotient \<open>60 / 11\<close> is rounded down, 11 times the
  rounded quotient lies below the midpoint of 60 and the float before it, and the last
  range ends at 59.99999999999999, not at 60.
\<close>

theorem calculate_split_times_last_end_counterexample:
  "\<not> isl (calculate_split_times 60 11)
   \<and> snd (last (projr (calculate_split_times 60 11))) = 8444249301319679 / 140737488355328
   \<and> snd (last (projr (calculate_split_times 60 11))) < 60"
proof -
  have "calculate_split_times 60 11 =
      Inr (map (\<lambda>i. (fmul (of_nat i) (fdiv 60 (of_int 11)), fmul (of_nat (i + 1)) (fdiv 60 (of_int 11))))
             [0..<nat 11])"
    by (rule calculate_split_times_ok) simp_all
  moreover have "last (map (\<lambda>i. (fmul (of_nat i) (fdiv 60 (of_int 11)),
                                fmul (of_nat (i + 1)) (fdiv 60 (of_int 11)))) [0..<nat 11]) =
      (fmul 10 (fdiv 60 11), fmul 11 (fdiv 60 11))"
    by (simp add: last_map)
  ultimately show ?thesis by (simp add: fdiv_60_11 fmul_11_back)
qed

text \<open>
  Claim C2, amended.  For 2 to 20 parts and a duration of at most \<open>2 ^ 1023\<close> seconds
  whose part duration does not underflow (\<open>duration / parts\<close> is at least the smallest
  normal float), \<open>calculate_split_times\<close> returns exactly \<open>parts\<close> ranges; range \<open>i\<close>,
  counted from 0, runs from \<open>i * p\<close> to \<open>(i + 1) * p\<close>, where \<open>p\<close> is the float
  quotient \<open>duration / parts\<close> and the products are float products.  The first range
  starts at 0, every range ends after it starts, and every range ends where the next
  starts.  The last range ends at \<open>parts * p\<close>, which differs from the duration by at
  most \<open>duration / 2 ^ 51\<close> and is not always equal to it.  Neither the quotient nor a
  product overflows: each is below \<open>2 ^ 1024 - 2 ^ 970\<close> before it is rounded.  600
  seconds in 3 parts give 0 to 200, 200 to 400 and 400 to 600.
\<close>

theorem calculate_split_times_plan:
  assumes "2 \<le> num_parts" and "num_parts \<le> 20"
    and "2 powi (- 1022) \<le> duration / of_int num_parts"
    and "duration \<le> 2 ^ 1023"
  shows "case calculate_split_times duration num_parts of
           Inl _ \<Rightarrow> False
         | Inr plan \<Rightarrow>
             length plan = nat num_parts
             \<and> (\<forall>i<length plan.
                   plan ! i = (fmul (of_nat i) (fdiv duration (of_int num_parts)),
                               fmul (of_nat (Suc i)) (fdiv duration (of_int num_parts))))
             \<and> fst (hd plan) = 0
             \<and> (\<forall>i<length plan. fst (plan ! i) < snd (plan ! i))
             \<and> (\<forall>i. Suc i < length plan \<longrightarrow> snd (plan ! i) = fst (plan ! Suc i))
             \<and> snd (last plan) = fmul (of_int num_parts) (fdiv duration (of_int num_parts))
             \<and> \<bar>snd (last plan) - duration\<bar> \<le> duration / 2 ^ 51
             \<and> duration / of_int num_parts < 2 ^ 1024 - 2 ^ 970
             \<and> (\<forall>i\<le>length plan.
                   of_nat i * fdiv duration (of_int num_parts) < 2 ^ 1024 - 2 ^ 970)"
proof -
  define top :: real where "top = 2 ^ 1024 - 2 ^ 970"
  define pd where "pd = fdiv duration (of_int num_parts)"
  define plan where "plan = map (\<lambda>i. (fmul (of_nat i) pd, fmul (of_nat (i + 1)) pd)) [0..<nat num_parts]"
  have eq: "calculate_split_times duration num_parts = Inr plan"
    using assms(1,2) by (simp add: calculate_split_times_ok plan_def pd_def)
  have len: "length plan = nat num_parts" by (simp add: plan_def)
  have nth: "plan ! i = (fmul (of_nat i) pd, fmul (of_nat (Suc i)) pd)" if "i < length plan" for i
    using that by (simp add: plan_def)
  have n0: "0 < length plan" using assms(1) len by simp
  have tiny: "(2::real) powi (- 1074) \<le> 2 powi (- 1022)"
    by (intro power_int_increasing) simp_all
  have pd_pos: "0 < pd"
    unfolding pd_def fdiv_def using assms(3) tiny by (intro rnd_pos) linarith
  obtain m where grid: "pd = of_int m * 2 powi (- 1074)"
    unfolding pd_def fdiv_def using rnd_on_grid by blast
  have hd0: "fst (hd plan) = 0"
    using n0 nth [of 0] by (simp add: hd_conv_nth fmul_def)
  have strict: "fst (plan ! i) < snd (plan ! i)" if "i < length plan" for i
  proof -
    have "i < 20" using that len assms(2) by simp
    then have "rnd (of_nat i * pd) < rnd (of_nat (Suc i) * pd)"
      using pd_pos grid by (intro rnd_step_strict)
    then show ?thesis using nth [OF that] by (simp only: fmul_def fst_conv snd_conv)
  qed
  have contig: "snd (plan ! i) = fst (plan ! Suc i)" if "Suc i < length plan" for i
    using that nth [of i] nth [of "Suc i"] by simp
  have nat_n: "of_nat (nat num_parts) = (of_int num_parts :: real)" using assms(1) by simp
  have last: "snd (last plan) = fmul (of_int num_parts) pd"
  proof -
    have "last plan = plan ! (length plan - 1)" using n0 by (simp add: last_conv_nth)
    then have "snd (last plan) = fmul (of_nat (Suc (length plan - 1))) pd"
      using nth [of "length plan - 1"] n0 by simp
    moreover have "Suc (length plan - 1) = nat num_parts" using n0 len by simp
    ultimately show ?thesis by (simp only: nat_n)
  qed
  have close: "\<bar>snd (last plan) - duration\<bar> \<le> duration / 2 ^ 51"
  proof -
    have "(2::real) \<le> of_int num_parts" "(of_int num_parts :: real) \<le> 20"
      using assms(1,2) by simp_all
    then show ?thesis
      unfolding last pd_def fmul_def fdiv_def using assms(3) by (rule fdiv_mul_back)
  qed
  have bounds: "(2::real) \<le> of_int num_parts" "(of_int num_parts :: real) \<le> 20"
    using assms(1,2) by simp_all
  have quot: "duration / of_int num_parts < top"
    unfolding top_def using bounds assms(3,4)
    by (rule plan_no_overflow(1) [where k = 0]) (use assms(1) in simp_all)
  have prod: "of_nat i * pd < top" if "i \<le> length plan" for i
  proof -
    have "(of_nat i :: real) \<le> of_nat (nat num_parts)" using that len by simp
    then have k: "(of_nat i :: real) \<le> of_int num_parts" by (simp only: nat_n)
    have k0: "(0::real) \<le> of_nat i" by simp
    show ?thesis
      unfolding top_def pd_def fdiv_def
      using bounds assms(3,4) k0 k by (rule plan_no_overflow(2))
  qed
  show ?thesis
    unfolding eq pd_def [symmetric] top_def [symmetric]
    using len nth hd0 strict contig last close quot prod by simp
qed

lemma plan_600_3: "calculate_split_times 600 3 = Inr [(0, 200), (200, 400), (400, 600)]"
proof -
  have "[0..<nat 3] = [0, 1, 2]" by (simp add: upt_rec)
  moreover have "rnd 200 = 200" "rnd 400 = 400" "rnd 600 = 600"
    using rnd_of_int [of 200] rnd_of_int [of 400] rnd_of_int [of 600] by simp_all
  ultimately show ?thesis
    by (simp add: calculate_split_times_def fdiv_def fmul_def)
qed

theorem calculate_split_times_plan_witness:
  "calculate_split_times 600 3 = Inr [(0, 200), (200, 400), (400, 600)]
   \<and> length [(0, 200), (200, 400), (400, 600 :: real)] = nat 3
   \<and> fst (hd [(0, 200), (200, 400), (400, 600 :: real)]) = (0 :: real)
   \<and> snd (last [(0, 200), (200, 400), (400, 600 :: real)]) = fmul (of_int 3) (fdiv 600 (of_int 3))
   \<and> \<bar>snd (last [(0, 200), (200, 400), (400, 600 :: real)]) - 600\<bar> \<le> 600 / 2 ^ 51
   \<and> (600::real) / of_int 3 < 2 ^ 1024 - 2 ^ 970"
proof -
  have h1: "(2::int) \<le> 3" and h2: "(3::int) \<le> 20" by simp_all
  have h4: "(600::real) \<le> 2 ^ 1023"
  proof -
    have "(2::real) ^ 10 \<le> 2 ^ 1023" by (intro power_increasing) simp_all
    then show ?thesis by simp
  qed
  have h3: "2 powi (- 1022) \<le> (600::real) / of_int 3"
  proof -
    have "(2::real) powi (- 1022) \<le> 2 powi 0" by (intro power_int_increasing) simp_all
    then show ?thesis by simp
  qed
  show ?thesis
    using calculate_split_times_plan [OF h1 h2 h3 h4] by (simp add: plan_600_3)
qed

end
